theory Spec2Isabelle
  imports Complex_Main "HOL-Library.Word"
begin

unbundle bit_operations_syntax

section \<open>Machine types and library primitives\<close>

text \<open>
  Go's \<open>uint64\<close> is a 64-bit word and \<open>byte\<close> an 8-bit word.  Go's \<open>int\<close> (64-bit
  platforms) is a 64-bit word too, read as two's complement by \<open>sint\<close>; its arithmetic
  wraps, its comparisons are comparisons of the \<open>sint\<close> values.
\<close>

type_synonym u64 = "64 word"
type_synonym go_int = "64 word"
type_synonym byte = "8 word"

text \<open>
  The outcome of a call that mutates its receiver: it returns normally, it returns an
  \<open>error\<close> value (\<open>errors.New\<close> with the given message), or it panics.  Every mutating
  operation below returns the receiver's state at that moment together with the outcome.
\<close>

datatype outcome = Ok | Err string | Panic string

text \<open>
  The \<open>float64\<close> primitives the sketch uses.  They are a parameter of the model, so that
  nothing proved for all \<open>F\<close> rests on how a \<open>float64\<close> rounds: \<open>f_lit\<close> is a decimal
  literal, \<open>f_of_int\<close> the conversion \<open>float64(n)\<close>, \<open>f_pow\<close> is \<open>math.Pow\<close>,
  \<open>f_log\<close> is \<open>math.Log\<close> and \<open>f_to_u64\<close> the conversion \<open>uint64(x)\<close>.
\<close>

record 'f float64_ops =
  f_lit :: "real \<Rightarrow> 'f"
  f_of_int :: "int \<Rightarrow> 'f"
  f_add :: "'f \<Rightarrow> 'f \<Rightarrow> 'f"
  f_sub :: "'f \<Rightarrow> 'f \<Rightarrow> 'f"
  f_mul :: "'f \<Rightarrow> 'f \<Rightarrow> 'f"
  f_div :: "'f \<Rightarrow> 'f \<Rightarrow> 'f"
  f_neg :: "'f \<Rightarrow> 'f"
  f_pow :: "'f \<Rightarrow> 'f \<Rightarrow> 'f"
  f_log :: "'f \<Rightarrow> 'f"
  f_to_u64 :: "'f \<Rightarrow> u64"

text \<open>
  The exact instance: every primitive computed in the reals, the conversion to
  \<open>uint64\<close> truncating towards zero.  It is used only to run the model on concrete
  scenarios whose \<open>float64\<close> values are far from any rounding boundary.
\<close>

definition exactF :: "real float64_ops" where
  "exactF = \<lparr> f_lit = (\<lambda>x. x), f_of_int = real_of_int,
     f_add = (\<lambda>x y. x + y), f_sub = (\<lambda>x y. x - y),
     f_mul = (\<lambda>x y. x * y), f_div = (\<lambda>x y. x / y),
     f_neg = (\<lambda>x. - x), f_pow = (\<lambda>x y. x powr y), f_log = ln,
     f_to_u64 = (\<lambda>x. word_of_int (if 0 \<le> x then \<lfloor>x\<rfloor> else \<lceil>x\<rceil>)) \<rparr>"

text \<open>\<open>bits.Len64\<close>: the number of bits needed to represent the value, 0 for 0.\<close>

fun len_nat :: "nat \<Rightarrow> nat" where
  "len_nat n = (if n = 0 then 0 else Suc (len_nat (n div 2)))"

declare len_nat.simps [simp del]

definition Len64 :: "u64 \<Rightarrow> nat" where
  "Len64 x = len_nat (unat x)"

text \<open>\<open>bits.LeadingZeros64\<close> is \<open>64 - Len64(x)\<close>, as in the Go library.\<close>

definition LeadingZeros64 :: "u64 \<Rightarrow> nat" where
  "LeadingZeros64 x = 64 - Len64 x"

text \<open>\<open>bits.TrailingZeros64\<close>: 64 for 0, else the index of the lowest set bit.\<close>

fun tz_nat :: "nat \<Rightarrow> nat" where
  "tz_nat n = (if n = 0 \<or> odd n then 0 else Suc (tz_nat (n div 2)))"

declare tz_nat.simps [simp del]

definition TrailingZeros64 :: "u64 \<Rightarrow> nat" where
  "TrailingZeros64 x = (if x = 0 then 64 else tz_nat (unat x))"

text \<open>
  \<open>fnv.New64a\<close> fed with \<open>fmt.Fprintf(hasher, "%v", item)\<close>: FNV-1a over the bytes of the
  item's default formatting.  An item is modelled by that text.
\<close>

type_synonym item = string

definition fnv_offset64 :: u64 where
  "fnv_offset64 = 14695981039346656037"

definition fnv_prime64 :: u64 where
  "fnv_prime64 = 1099511628211"

fun fnv64a_from :: "u64 \<Rightarrow> string \<Rightarrow> u64" where
  "fnv64a_from h [] = h"
| "fnv64a_from h (c # cs) = fnv64a_from ((h XOR of_nat (of_char c)) * fnv_prime64) cs"

definition fnv64a :: "item \<Rightarrow> u64" where
  "fnv64a it = fnv64a_from fnv_offset64 it"

section \<open>Sketch configuration: \<open>HLLConfig\<close>\<close>

record 'f HLLConfig =
  NumRegisters :: go_int
  Alpha :: 'f
  HLLSeeds :: "u64 list"

text \<open>
  \<open>NewHLLConfig\<close>.  A \<open>nil\<close> seed slice is \<open>None\<close>; \<open>rnd i\<close> is the \<open>i\<close>-th value
  \<open>secureRandomInt\<close> draws.  \<open>Inl\<close> is the error returned.
\<close>

definition hll_alpha :: "'f float64_ops \<Rightarrow> go_int \<Rightarrow> 'f" where
  "hll_alpha F numRegisters =
     (if numRegisters = 16 then f_lit F 0.673
      else if numRegisters = 32 then f_lit F 0.697
      else if numRegisters = 64 then f_lit F 0.709
      else f_div F (f_lit F 0.7213)
             (f_add F (f_lit F 1.0) (f_div F (f_lit F 1.079) (f_of_int F (sint numRegisters)))))"

definition NewHLLConfig ::
  "'f float64_ops \<Rightarrow> go_int \<Rightarrow> u64 list option \<Rightarrow> (nat \<Rightarrow> u64) \<Rightarrow> string + 'f HLLConfig" where
  "NewHLLConfig F numRegisters seeds rnd =
     (if numRegisters = 0 then Inl ''number of registers must be greater than zero''
      else if numRegisters AND (numRegisters - 1) \<noteq> 0
        then Inl ''number of registers must be a power of 2''
      else Inr \<lparr> NumRegisters = numRegisters,
                 Alpha = hll_alpha F numRegisters,
                 HLLSeeds = (case seeds of None \<Rightarrow> map rnd [0..<8] | Some ss \<Rightarrow> ss) \<rparr>)"

section \<open>The sketch: \<open>HyperLogLog\<close>\<close>

record 'f HyperLogLog =
  hll_config :: "'f HLLConfig"
  registers :: "byte list"
  numZeroRegisters :: go_int
  zInv :: 'f

text \<open>
  \<open>NewHyperLogLog\<close>.  \<open>make([]byte, n)\<close> panics for a negative \<open>n\<close>; \<open>Inl\<close> is that
  panic.
\<close>

definition NewHyperLogLog :: "'f float64_ops \<Rightarrow> 'f HLLConfig \<Rightarrow> string + 'f HyperLogLog" where
  "NewHyperLogLog F cfg =
     (if sint (NumRegisters cfg) < 0 then Inl ''makeslice: len out of range''
      else Inr \<lparr> hll_config = cfg,
                 registers = replicate (unat (NumRegisters cfg)) 0,
                 numZeroRegisters = NumRegisters cfg,
                 zInv = f_of_int F (sint (NumRegisters cfg)) \<rparr>)"

text \<open>
  \<open>hashItem\<close> reads \<open>h.config.Seeds[1]\<close>; with fewer than two seeds that read panics
  (\<open>Inl\<close>).
\<close>

definition hashItem :: "'f HyperLogLog \<Rightarrow> item \<Rightarrow> string + u64" where
  "hashItem h it =
     (let hash = fnv64a it in
      if 1 < length (HLLSeeds (hll_config h))
      then Inr (hash XOR (HLLSeeds (hll_config h) ! 1))
      else Inl ''index out of range [1]'')"

text \<open>\<open>math.Pow(2.0, -float64(r))\<close> for a register value \<open>r\<close>.\<close>

definition pow2neg :: "'f float64_ops \<Rightarrow> byte \<Rightarrow> 'f" where
  "pow2neg F r = f_pow F (f_lit F 2.0) (f_neg F (f_of_int F (uint r)))"

definition insertHash :: "'f float64_ops \<Rightarrow> 'f HyperLogLog \<Rightarrow> u64 \<Rightarrow> 'f HyperLogLog \<times> outcome" where
  "insertHash F h hash =
     (let registerBits = Len64 (NumRegisters (hll_config h) - 1);
          registerIdx = hash AND (push_bit registerBits 1 - 1);
          remainingHash = drop_bit registerBits hash;
          leadingZeros = (of_nat (LeadingZeros64 remainingHash) :: byte) + 1
      in if length (registers h) \<le> unat registerIdx then (h, Panic ''index out of range'')
         else if registers h ! unat registerIdx < leadingZeros then
           (let old = registers h ! unat registerIdx;
                h1 = (if old = 0 then h\<lparr>numZeroRegisters := numZeroRegisters h - 1\<rparr> else h);
                h2 = h1\<lparr>zInv := f_sub F (zInv h1) (pow2neg F old)\<rparr>;
                h3 = h2\<lparr>zInv := f_add F (zInv h2) (pow2neg F leadingZeros)\<rparr>
            in (h3\<lparr>registers := (registers h)[unat registerIdx := leadingZeros]\<rparr>, Ok))
         else (h, Ok))"

definition hll_Insert :: "'f float64_ops \<Rightarrow> 'f HyperLogLog \<Rightarrow> item \<Rightarrow> 'f HyperLogLog \<times> outcome" where
  "hll_Insert F h it =
     (case hashItem h it of
        Inl p \<Rightarrow> (h, Panic p)
      | Inr hash \<Rightarrow> insertHash F h hash)"

definition hll_Clear :: "'f float64_ops \<Rightarrow> 'f HyperLogLog \<Rightarrow> 'f HyperLogLog" where
  "hll_Clear F h =
     h\<lparr> registers := map (\<lambda>_. 0) (registers h),
        numZeroRegisters := NumRegisters (hll_config h),
        zInv := f_of_int F (sint (NumRegisters (hll_config h))) \<rparr>"

definition linearCounting :: "'f float64_ops \<Rightarrow> 'f HyperLogLog \<Rightarrow> 'f" where
  "linearCounting F h =
     f_mul F (f_of_int F (sint (NumRegisters (hll_config h))))
       (f_log F (f_div F (f_of_int F (sint (NumRegisters (hll_config h))))
                         (f_of_int F (sint (numZeroRegisters h)))))"

definition hll_Cardinality :: "'f float64_ops \<Rightarrow> 'f HyperLogLog \<Rightarrow> u64" where
  "hll_Cardinality F h =
     (let m = NumRegisters (hll_config h);
          estimate = f_to_u64 F (f_div F (f_mul F (f_of_int F (sint (m * m))) (Alpha (hll_config h)))
                                         (zInv h))
      in if estimate \<le> 5 * signed_drop_bit 1 m
         then (if 0 < sint (numZeroRegisters h) then f_to_u64 F (linearCounting F h) else estimate)
         else estimate)"

section \<open>The caching wrapper: \<open>CachedSketch\<close>\<close>

text \<open>
  Every wrapper this repository builds wraps a HyperLogLog (\<open>NewCachedSketch(hll)\<close> in
  ssss.go), so the wrapped \<open>CardinalitySketch\<close> is a \<open>HyperLogLog\<close> here.
\<close>

record 'f CachedSketch =
  sketch :: "'f HyperLogLog"
  cardinality :: u64

text \<open>A value of the interface \<open>CardinalitySketch\<close>: one of its two implementations.\<close>

datatype 'f CardinalitySketch = IsHLL "'f HyperLogLog" | IsCached "'f CachedSketch"

text \<open>The loop of \<open>HyperLogLog.Merge\<close> over the register indices.\<close>

fun merge_registers ::
  "'f float64_ops \<Rightarrow> byte list \<Rightarrow> nat list \<Rightarrow> 'f HyperLogLog \<Rightarrow> 'f HyperLogLog \<times> outcome" where
  "merge_registers F oregs [] h = (h, Ok)"
| "merge_registers F oregs (i # rest) h =
     (if length oregs \<le> i \<or> length (registers h) \<le> i then (h, Panic ''index out of range'')
      else
        (let h1 = (if registers h ! i < oregs ! i
                   then h\<lparr>registers := (registers h)[i := oregs ! i]\<rparr> else h);
             h2 = (if registers h1 ! i = 0
                   then h1\<lparr>numZeroRegisters := numZeroRegisters h1 + 1\<rparr> else h1);
             h3 = h2\<lparr>zInv := f_add F (zInv h2) (pow2neg F (registers h2 ! i))\<rparr>
         in merge_registers F oregs rest h3))"

definition hll_Merge ::
  "'f float64_ops \<Rightarrow> 'f HyperLogLog \<Rightarrow> 'f CardinalitySketch \<Rightarrow> 'f HyperLogLog \<times> outcome" where
  "hll_Merge F h other =
     (case other of
        IsCached _ \<Rightarrow> (h, Err ''can only merge with another HyperLogLog'')
      | IsHLL otherHLL \<Rightarrow>
          if NumRegisters (hll_config h) \<noteq> NumRegisters (hll_config otherHLL)
          then (h, Err ''config mismatch: different number of registers'')
          else merge_registers F (registers otherHLL)
                 [0..<nat (sint (NumRegisters (hll_config h)))]
                 (h\<lparr>numZeroRegisters := 0, zInv := f_lit F 0\<rparr>))"

definition NewCachedSketch :: "'f HyperLogLog \<Rightarrow> 'f CachedSketch" where
  "NewCachedSketch sk = \<lparr> sketch = sk, cardinality = 0 \<rparr>"

definition cached_Insert :: "'f float64_ops \<Rightarrow> 'f CachedSketch \<Rightarrow> item \<Rightarrow> 'f CachedSketch \<times> outcome" where
  "cached_Insert F c it =
     (case hll_Insert F (sketch c) it of
        (h, Ok) \<Rightarrow> (\<lparr> sketch = h, cardinality = hll_Cardinality F h \<rparr>, Ok)
      | (h, r) \<Rightarrow> (c\<lparr>sketch := h\<rparr>, r))"

definition cached_Merge ::
  "'f float64_ops \<Rightarrow> 'f CachedSketch \<Rightarrow> 'f CardinalitySketch \<Rightarrow> 'f CachedSketch \<times> outcome" where
  "cached_Merge F c other =
     (case other of
        IsHLL _ \<Rightarrow> (case hll_Merge F (sketch c) other of (h, r) \<Rightarrow> (c\<lparr>sketch := h\<rparr>, r))
      | IsCached otherCached \<Rightarrow>
          (case hll_Merge F (sketch c) (IsHLL (sketch otherCached)) of
             (h, Ok) \<Rightarrow> (\<lparr> sketch = h, cardinality = hll_Cardinality F h \<rparr>, Ok)
           | (h, r) \<Rightarrow> (c\<lparr>sketch := h\<rparr>, r)))"

definition cached_Clear :: "'f float64_ops \<Rightarrow> 'f CachedSketch \<Rightarrow> 'f CachedSketch" where
  "cached_Clear F c = \<lparr> sketch = hll_Clear F (sketch c), cardinality = 0 \<rparr>"

definition cached_Cardinality :: "'f CachedSketch \<Rightarrow> u64" where
  "cached_Cardinality c = cardinality c"

section \<open>Tracker configuration: \<open>Config\<close> (config.go)\<close>

record 'f Config =
  MaxNumCounters :: go_int
  Seeds :: "u64 list"
  CardinalitySketchConfig :: "'f HLLConfig"

definition NewConfig ::
  "go_int \<Rightarrow> 'f HLLConfig \<Rightarrow> u64 list option \<Rightarrow> (nat \<Rightarrow> u64) \<Rightarrow> string + 'f Config" where
  "NewConfig maxNumCounters cardinalitySketchConfig seeds rnd =
     (if maxNumCounters = 0 then Inl ''max number of counters must be greater than zero''
      else Inr \<lparr> MaxNumCounters = maxNumCounters,
                 Seeds = (case seeds of None \<Rightarrow> map rnd [0..<4] | Some ss \<Rightarrow> ss),
                 CardinalitySketchConfig = cardinalitySketchConfig \<rparr>)"

section \<open>The label tracker: \<open>SamplingSpaceSavingSets\<close> (ssss.go)\<close>

record 'l LabelCount =
  Label :: 'l
  Count :: u64

text \<open>
  The counters are a Go map from labels to pointers to counters.  The label type is any
  \<open>comparable\<close> type, and Go's \<open>==\<close> on such a type need not be reflexive: a \<open>float64\<close>
  \<open>NaN\<close>, or a struct or array that holds one, is not equal to itself.  An entry under
  such a key is never found by a lookup, an assignment under it always adds an entry, and
  \<open>delete\<close> leaves it in place, while \<open>len\<close> and \<open>range\<close> see every entry.  So the map is
  the list of its entries, and the equality of labels is an argument \<open>eq\<close> of every
  operation that looks a label up, read as \<open>eq stored asked\<close>.  A lookup, an assignment
  and a deletion act on the first entry whose key is equal to the one asked for; in a Go
  map there is at most one.  \<open>go_assign\<close> under a key that no stored key is equal to
  adds an entry, as \<open>m[k] = v\<close> does.  Under a key that is present it gives the entry
  found its new value and leaves its key: the operations below do that only to write
  back a counter that they have changed through its pointer.
\<close>

fun go_lookup :: "('l \<Rightarrow> 'l \<Rightarrow> bool) \<Rightarrow> ('l \<times> 'v) list \<Rightarrow> 'l \<Rightarrow> 'v option" where
  "go_lookup eq [] k = None"
| "go_lookup eq (e # m) k = (if eq (fst e) k then Some (snd e) else go_lookup eq m k)"

fun go_assign :: "('l \<Rightarrow> 'l \<Rightarrow> bool) \<Rightarrow> ('l \<times> 'v) list \<Rightarrow> 'l \<Rightarrow> 'v \<Rightarrow> ('l \<times> 'v) list" where
  "go_assign eq [] k v = [(k, v)]"
| "go_assign eq (e # m) k v = (if eq (fst e) k then (fst e, v) # m else e # go_assign eq m k v)"

fun go_delete :: "('l \<Rightarrow> 'l \<Rightarrow> bool) \<Rightarrow> ('l \<times> 'v) list \<Rightarrow> 'l \<Rightarrow> ('l \<times> 'v) list" where
  "go_delete eq [] k = []"
| "go_delete eq (e # m) k = (if eq (fst e) k then m else e # go_delete eq m k)"

text \<open>
  Go leaves the order in which \<open>range\<close> visits a map unspecified, and the position of an
  entry in the list above means nothing.  Every operation that ranges over a map takes
  the order of that visit as an argument \<open>ks\<close>, a list of positions; it is an order of
  the map when it lists each position once.  \<open>go_range\<close> is the sequence of entries
  visited; a position that the map does not have is skipped.
\<close>

definition key_order :: "('l \<times> 'v) list \<Rightarrow> nat list \<Rightarrow> bool" where
  "key_order m ks = (distinct ks \<and> set ks = {..<length m})"

definition go_range :: "('l \<times> 'v) list \<Rightarrow> nat list \<Rightarrow> ('l \<times> 'v) list" where
  "go_range m ks = map (\<lambda>i. m ! i) (filter (\<lambda>i. i < length m) ks)"

record ('l, 'f) SamplingSpaceSavingSets =
  config :: "'f Config"
  counters :: "('l \<times> 'f CachedSketch) list"
  threshold :: u64

definition MaxUint64 :: u64 where
  "MaxUint64 = 18446744073709551615"

definition NewSamplingSpaceSavingSets :: "'f Config \<Rightarrow> ('l, 'f) SamplingSpaceSavingSets" where
  "NewSamplingSpaceSavingSets cfg = \<lparr> config = cfg, counters = [], threshold = 0 \<rparr>"

definition estimate_term :: "u64 \<Rightarrow> u64" where
  "estimate_term h =
     (let trailingZeros = TrailingZeros64 h in
      if 64 \<le> trailingZeros then MaxUint64 else push_bit trailingZeros 1)"

definition cardinalityEstimate :: "('l, 'f) SamplingSpaceSavingSets \<Rightarrow> 'l \<Rightarrow> item \<Rightarrow> u64" where
  "cardinalityEstimate s label it =
     (let itemHash = fnv64a it;
          seedCount = length (Seeds (config s))
      in if seedCount = 0 then estimate_term itemHash
         else fold (\<lambda>seed totalEstimate. totalEstimate + estimate_term (itemHash XOR seed))
                (Seeds (config s)) 0
              div of_nat seedCount)"

text \<open>
  The scan for the counter of minimum cardinality.  \<open>minLabel\<close> starts as the zero value
  of the label type, here \<open>None\<close>; it is read only after the scan has set it.
\<close>

definition scan_step ::
  "'l \<times> 'f CachedSketch \<Rightarrow> 'l option \<times> u64 \<Rightarrow> 'l option \<times> u64" where
  "scan_step e acc =
     (if cached_Cardinality (snd e) < snd acc then (Some (fst e), cached_Cardinality (snd e))
      else acc)"

definition scan_min :: "('l \<times> 'f CachedSketch) list \<Rightarrow> nat list \<Rightarrow> 'l option \<times> u64" where
  "scan_min cs ks = fold scan_step (go_range cs ks) (None, MaxUint64)"

text \<open>
  \<open>Insert\<close>.  A counter is reached through a pointer, so a counter that a lookup has
  found is changed in place: the changed counter is assigned back under the label that
  found it.  In the replacement, \<open>s.counters[minLabel]\<close> is \<open>nil\<close> when no stored key is
  equal to \<open>minLabel\<close>; then \<open>delete\<close> removes nothing and \<open>minCounter.Clear()\<close> panics.
\<close>

definition Insert ::
  "'f float64_ops \<Rightarrow> ('l \<Rightarrow> 'l \<Rightarrow> bool) \<Rightarrow> nat list \<Rightarrow> ('l, 'f) SamplingSpaceSavingSets \<Rightarrow> 'l \<Rightarrow> item
     \<Rightarrow> ('l, 'f) SamplingSpaceSavingSets \<times> outcome" where
  "Insert F eq ks s label it =
     (case go_lookup eq (counters s) label of
        Some counter \<Rightarrow>
          (case cached_Insert F counter it of
             (c, r) \<Rightarrow> (s\<lparr>counters := go_assign eq (counters s) label c\<rparr>, r))
      | None \<Rightarrow>
          if int (length (counters s)) < sint (MaxNumCounters (config s)) then
            (case NewHyperLogLog F (CardinalitySketchConfig (config s)) of
               Inl p \<Rightarrow> (s, Panic p)
             | Inr hll \<Rightarrow>
                 (case cached_Insert F (NewCachedSketch hll) it of
                    (c, r) \<Rightarrow> (s\<lparr>counters := go_assign eq (counters s) label c\<rparr>, r)))
          else
            (let est = cardinalityEstimate s label it in
             if threshold s < est then
               (case scan_min (counters s) ks of
                  (minLabel, minCardinality) \<Rightarrow>
                    (let s1 = s\<lparr>threshold := minCardinality\<rparr> in
                     if minCardinality < est then
                       (case (case minLabel of None \<Rightarrow> None | Some ml \<Rightarrow>
                                map_option (Pair ml) (go_lookup eq (counters s) ml)) of
                          None \<Rightarrow> (s1, Panic ''nil pointer dereference'')
                        | Some (ml, minCounter) \<Rightarrow>
                            (case cached_Insert F (cached_Clear F minCounter) it of
                               (c, r) \<Rightarrow>
                                 (s1\<lparr>counters :=
                                       go_assign eq (go_delete eq (counters s) ml) label c\<rparr>, r)))
                     else (s1, Ok)))
             else (s, Ok)))"

definition seeds_differ :: "u64 list \<Rightarrow> u64 list \<Rightarrow> bool" where
  "seeds_differ xs ys = list_ex (\<lambda>i. xs ! i \<noteq> ys ! i) [0..<length xs]"

definition merge_validate ::
  "('l, 'f) SamplingSpaceSavingSets \<Rightarrow> ('l, 'f) SamplingSpaceSavingSets \<Rightarrow> outcome" where
  "merge_validate s other =
     (if MaxNumCounters (config s) \<noteq> MaxNumCounters (config other) \<or>
         length (Seeds (config s)) \<noteq> length (Seeds (config other))
      then Err ''config mismatch''
      else if seeds_differ (Seeds (config s)) (Seeds (config other))
      then Err ''config mismatch: different seeds''
      else if NumRegisters (CardinalitySketchConfig (config s)) \<noteq>
              NumRegisters (CardinalitySketchConfig (config other))
      then Err ''config mismatch: different HLL register count''
      else Ok)"

text \<open>
  The loop of \<open>Merge\<close> over the entries of the other tracker's map, in the order they are
  visited; it stops at the first failure, with the counters as they are then.  A label
  that no stored key is equal to gets a new entry.
\<close>

fun merge_counters ::
  "'f float64_ops \<Rightarrow> ('l \<Rightarrow> 'l \<Rightarrow> bool) \<Rightarrow> 'f HLLConfig \<Rightarrow> ('l \<times> 'f CachedSketch) list
     \<Rightarrow> ('l \<times> 'f CachedSketch) list \<Rightarrow> ('l \<times> 'f CachedSketch) list \<times> outcome" where
  "merge_counters F eq hc [] cs = (cs, Ok)"
| "merge_counters F eq hc (e # rest) cs =
     (case go_lookup eq cs (fst e) of
        Some existingCounter \<Rightarrow>
          (case cached_Merge F existingCounter (IsCached (snd e)) of
             (c, Ok) \<Rightarrow> merge_counters F eq hc rest (go_assign eq cs (fst e) c)
           | (c, r) \<Rightarrow> (go_assign eq cs (fst e) c, r))
      | None \<Rightarrow>
          (case NewHyperLogLog F hc of
             Inl p \<Rightarrow> (cs, Panic p)
           | Inr hll \<Rightarrow>
               (case cached_Merge F (NewCachedSketch hll) (IsCached (snd e)) of
                  (c, Ok) \<Rightarrow> merge_counters F eq hc rest (go_assign eq cs (fst e) c)
                | (c, r) \<Rightarrow> (cs, r))))"

text \<open>
  The label-count entries collected by ranging over the counters in the order \<open>ks\<close>, and
  \<open>sort.Slice\<close> by descending count.  \<open>sort.Slice\<close> is not stable; a stable sort of an
  arbitrary visiting order produces exactly the results it can produce.
\<close>

definition entries_of :: "('l \<times> 'f CachedSketch) list \<Rightarrow> nat list \<Rightarrow> 'l LabelCount list" where
  "entries_of cs ks =
     map (\<lambda>e. \<lparr> Label = fst e, Count = cached_Cardinality (snd e) \<rparr>) (go_range cs ks)"

definition sort_desc :: "'l LabelCount list \<Rightarrow> 'l LabelCount list" where
  "sort_desc es = sort_key (\<lambda>e. - int (unat (Count e))) es"

text \<open>\<open>delete(s.counters, entry.Label)\<close>.\<close>

definition delete_entry ::
  "('l \<Rightarrow> 'l \<Rightarrow> bool) \<Rightarrow> 'l LabelCount \<Rightarrow> ('l \<times> 'v) list \<Rightarrow> ('l \<times> 'v) list" where
  "delete_entry eq entry m = go_delete eq m (Label entry)"

definition merge_truncate ::
  "('l \<Rightarrow> 'l \<Rightarrow> bool) \<Rightarrow> go_int \<Rightarrow> nat list \<Rightarrow> ('l \<times> 'f CachedSketch) list
     \<Rightarrow> ('l \<times> 'f CachedSketch) list \<times> outcome" where
  "merge_truncate eq maxNumCounters ks cs =
     (if sint maxNumCounters < int (length cs) then
        (let entries = sort_desc (entries_of cs ks) in
         if sint maxNumCounters < 0 \<or> int (length entries) < sint maxNumCounters
         then (cs, Panic ''slice bounds out of range'')
         else (fold (delete_entry eq) (drop (nat (sint maxNumCounters)) entries) cs, Ok))
      else (cs, Ok))"

definition threshold_step :: "'l \<times> 'f CachedSketch \<Rightarrow> u64 \<Rightarrow> u64" where
  "threshold_step e t =
     (if cached_Cardinality (snd e) < t then cached_Cardinality (snd e) else t)"

definition min_threshold :: "('l \<times> 'f CachedSketch) list \<Rightarrow> nat list \<Rightarrow> u64" where
  "min_threshold cs ks =
     (let t = fold threshold_step (go_range cs ks) MaxUint64
      in if length cs = 0 then 0 else t)"

text \<open>
  \<open>Merge\<close>.  The argument is the one implementation of \<open>HeavyDistinctHitterSketch\<close>, so
  the type assertion holds.  \<open>ko\<close> is the order of the visit of the other tracker's
  counters, \<open>ks1\<close> that of the receiver's counters when the entries to drop are
  collected, \<open>ks2\<close> that of the final visit for the threshold.  The other tracker is
  another object than the receiver and is only read.
\<close>

definition Merge ::
  "'f float64_ops \<Rightarrow> ('l \<Rightarrow> 'l \<Rightarrow> bool) \<Rightarrow> nat list \<Rightarrow> nat list \<Rightarrow> nat list
     \<Rightarrow> ('l, 'f) SamplingSpaceSavingSets \<Rightarrow> ('l, 'f) SamplingSpaceSavingSets
     \<Rightarrow> ('l, 'f) SamplingSpaceSavingSets \<times> outcome" where
  "Merge F eq ko ks1 ks2 s other =
     (case merge_validate s other of
        Ok \<Rightarrow>
          (case merge_counters F eq (CardinalitySketchConfig (config s))
                  (go_range (counters other) ko) (counters s) of
             (cs1, Ok) \<Rightarrow>
               (case merge_truncate eq (MaxNumCounters (config s)) ks1 cs1 of
                  (cs2, Ok) \<Rightarrow> (s\<lparr>counters := cs2, threshold := min_threshold cs2 ks2\<rparr>, Ok)
                | (cs2, r) \<Rightarrow> (s\<lparr>counters := cs2\<rparr>, r))
           | (cs1, r) \<Rightarrow> (s\<lparr>counters := cs1\<rparr>, r))
      | r \<Rightarrow> (s, r))"

definition Clear :: "('l, 'f) SamplingSpaceSavingSets \<Rightarrow> ('l, 'f) SamplingSpaceSavingSets" where
  "Clear s = s\<lparr>counters := [], threshold := 0\<rparr>"

definition Cardinality ::
  "('l \<Rightarrow> 'l \<Rightarrow> bool) \<Rightarrow> nat list \<Rightarrow> ('l, 'f) SamplingSpaceSavingSets \<Rightarrow> 'l \<Rightarrow> u64" where
  "Cardinality eq ks s label =
     (case go_lookup eq (counters s) label of
        Some counter \<Rightarrow> cached_Cardinality counter
      | None \<Rightarrow> if 0 < length (counters s) then snd (scan_min (counters s) ks) else 0)"

text \<open>
  \<open>Top\<close>.  It assigns to nothing but its local slice, so its only output is its result:
  \<open>Inr\<close> the slice returned, \<open>Inl\<close> the panic of \<open>entries[:k]\<close> for a negative \<open>k\<close>.
\<close>

definition Top ::
  "nat list \<Rightarrow> ('l, 'f) SamplingSpaceSavingSets \<Rightarrow> go_int \<Rightarrow> string + 'l LabelCount list" where
  "Top ks s k =
     (let entries = sort_desc (entries_of (counters s) ks) in
      if sint k < int (length entries) then
        (if sint k < 0 then Inl ''slice bounds out of range''
         else Inr (take (nat (sint k)) entries))
      else Inr entries)"

section \<open>Concrete configurations\<close>

text \<open>
  A fixed random source (no scenario below leaves the seeds to it), a 16-register sketch
  configuration with the seeds 8 and 9, the same without seeds, tracker configurations
  of capacity 1 and 2 without seeds, and the empty trackers built from them.
\<close>

definition zero_rnd :: "nat \<Rightarrow> u64" where
  "zero_rnd i = 0"

definition hll16 :: "real HLLConfig" where
  "hll16 = \<lparr> NumRegisters = 16, Alpha = 0.673, HLLSeeds = [8, 9] \<rparr>"

definition hll16_noseeds :: "real HLLConfig" where
  "hll16_noseeds = \<lparr> NumRegisters = 16, Alpha = 0.673, HLLSeeds = [] \<rparr>"

definition cfg1 :: "real Config" where
  "cfg1 = \<lparr> MaxNumCounters = 1, Seeds = [], CardinalitySketchConfig = hll16 \<rparr>"

definition cfg2 :: "real Config" where
  "cfg2 = \<lparr> MaxNumCounters = 2, Seeds = [], CardinalitySketchConfig = hll16 \<rparr>"

definition tracker1 :: "(string, real) SamplingSpaceSavingSets" where
  "tracker1 = NewSamplingSpaceSavingSets cfg1"

definition tracker2 :: "(string, real) SamplingSpaceSavingSets" where
  "tracker2 = NewSamplingSpaceSavingSets cfg2"

text \<open>
  Sketches over \<open>hll16\<close>: the empty one, and the ones that hold the item \<open>0\<close>, the
  items \<open>0\<close> and \<open>2\<close>, and the item \<open>5\<close>.  With the seed 9 the three items fall into
  the registers 6, 12 and 9, each with rank 5.
\<close>

definition fresh16 :: "real HyperLogLog" where
  "fresh16 = \<lparr> hll_config = hll16, registers = replicate 16 0, numZeroRegisters = 16, zInv = 16 \<rparr>"

definition sketch_0 :: "real HyperLogLog" where
  "sketch_0 = \<lparr> hll_config = hll16, registers = (replicate 16 0)[6 := 5],
                numZeroRegisters = 15, zInv = 481 / 32 \<rparr>"

definition sketch_02 :: "real HyperLogLog" where
  "sketch_02 = \<lparr> hll_config = hll16, registers = (replicate 16 0)[6 := 5, 12 := 5],
                 numZeroRegisters = 14, zInv = 225 / 16 \<rparr>"

definition sketch_5 :: "real HyperLogLog" where
  "sketch_5 = \<lparr> hll_config = hll16, registers = (replicate 16 0)[9 := 5],
                numZeroRegisters = 15, zInv = 481 / 32 \<rparr>"

text \<open>
  The states of a tracker of capacity 1 along the run
  \<open>Insert("a", 0); Insert("a", 2); Insert("b", 5); Insert("c", 5)\<close>.
\<close>

definition tracker_a :: "(string, real) SamplingSpaceSavingSets" where
  "tracker_a = \<lparr> config = cfg1,
                 counters = [(''a'', \<lparr> sketch = sketch_0, cardinality = 1 \<rparr>)],
                 threshold = 0 \<rparr>"

definition tracker_aa :: "(string, real) SamplingSpaceSavingSets" where
  "tracker_aa = \<lparr> config = cfg1,
                  counters = [(''a'', \<lparr> sketch = sketch_02, cardinality = 2 \<rparr>)],
                  threshold = 0 \<rparr>"

definition tracker_b :: "(string, real) SamplingSpaceSavingSets" where
  "tracker_b = \<lparr> config = cfg1,
                 counters = [(''b'', \<lparr> sketch = sketch_5, cardinality = 1 \<rparr>)],
                 threshold = 2 \<rparr>"


definition fresh16_noseeds :: "real HyperLogLog" where
  "fresh16_noseeds =
     \<lparr> hll_config = hll16_noseeds, registers = replicate 16 0, numZeroRegisters = 16, zInv = 16 \<rparr>"

text \<open>
  Labels of type \<open>float64\<close>: a number or \<open>NaN\<close>, with Go's \<open>==\<close>, under which \<open>NaN\<close> is
  equal to nothing.  \<open>nan_tracker\<close> is the empty tracker of capacity 1 over such labels,
  \<open>nan_tracker_1\<close> what \<open>Insert(NaN, 0)\<close> makes of it, and \<open>nan_tracker_2\<close> what merging a
  second \<open>nan_tracker_1\<close> into the first makes of that.
\<close>

datatype float_label = NaN | Num int

fun float_eq :: "float_label \<Rightarrow> float_label \<Rightarrow> bool" where
  "float_eq (Num a) (Num b) = (a = b)"
| "float_eq NaN _ = False"
| "float_eq _ NaN = False"

definition nan_tracker :: "(float_label, real) SamplingSpaceSavingSets" where
  "nan_tracker = NewSamplingSpaceSavingSets cfg1"

definition nan_tracker_1 :: "(float_label, real) SamplingSpaceSavingSets" where
  "nan_tracker_1 = \<lparr> config = cfg1,
                     counters = [(NaN, \<lparr> sketch = sketch_0, cardinality = 1 \<rparr>)],
                     threshold = 0 \<rparr>"

definition nan_tracker_2 :: "(float_label, real) SamplingSpaceSavingSets" where
  "nan_tracker_2 = \<lparr> config = cfg1,
                     counters = [(NaN, \<lparr> sketch = sketch_0, cardinality = 1 \<rparr>),
                                 (NaN, \<lparr> sketch = sketch_0, cardinality = 1 \<rparr>)],
                     threshold = 1 \<rparr>"

section \<open>Reachable trackers\<close>

text \<open>
  A sketch is well formed when it has as many registers as its configuration says; a
  tracker is well formed when each of its counters is a well-formed sketch built from
  the tracker's own sketch configuration, and when a tracker that holds a counter has a
  register count that is not negative.
\<close>

definition hll_wf :: "'f HyperLogLog \<Rightarrow> bool" where
  "hll_wf h = (length (registers h) = nat (sint (NumRegisters (hll_config h))))"

definition counter_wf :: "'f HLLConfig \<Rightarrow> 'f CachedSketch \<Rightarrow> bool" where
  "counter_wf hc c = (hll_config (sketch c) = hc \<and> hll_wf (sketch c))"

definition counters_wf :: "'f HLLConfig \<Rightarrow> ('l \<times> 'f CachedSketch) list \<Rightarrow> bool" where
  "counters_wf hc cs = list_all (\<lambda>e. counter_wf hc (snd e)) cs"

definition tracker_wf :: "('l, 'f) SamplingSpaceSavingSets \<Rightarrow> bool" where
  "tracker_wf s =
     (counters_wf (CardinalitySketchConfig (config s)) (counters s) \<and>
      (counters s = [] \<or> 0 \<le> sint (NumRegisters (CardinalitySketchConfig (config s)))))"

text \<open>A tracker is within capacity when it holds at most \<open>MaxNumCounters\<close> counters.\<close>

definition within_capacity :: "('l, 'f) SamplingSpaceSavingSets \<Rightarrow> bool" where
  "within_capacity s = (int (length (counters s)) \<le> sint (MaxNumCounters (config s)))"

text \<open>
  The orders of the three visits of one \<open>Merge\<close>: each lists the positions of the map it
  visits, which for the second and third is the receiver's map as the earlier steps left
  it.
\<close>

definition merge_orders ::
  "'f float64_ops \<Rightarrow> ('l \<Rightarrow> 'l \<Rightarrow> bool) \<Rightarrow> nat list \<Rightarrow> nat list \<Rightarrow> nat list
     \<Rightarrow> ('l, 'f) SamplingSpaceSavingSets \<Rightarrow> ('l, 'f) SamplingSpaceSavingSets \<Rightarrow> bool" where
  "merge_orders F eq ko ks1 ks2 s other =
     (let cs1 = fst (merge_counters F eq (CardinalitySketchConfig (config s))
                       (go_range (counters other) ko) (counters s));
          cs2 = fst (merge_truncate eq (MaxNumCounters (config s)) ks1 cs1)
      in key_order (counters other) ko \<and> key_order cs1 ks1 \<and> key_order cs2 ks2)"

text \<open>
  The trackers a program can hold: built by \<open>NewSamplingSpaceSavingSets\<close> from a
  configuration that \<open>NewHLLConfig\<close> and \<open>NewConfig\<close> returned, then changed by
  \<open>Insert\<close>, by \<open>Merge\<close> with another such tracker, and by \<open>Clear\<close>.  The state a call
  leaves is reachable whatever its outcome.
\<close>

inductive reachable ::
  "'f float64_ops \<Rightarrow> ('l \<Rightarrow> 'l \<Rightarrow> bool) \<Rightarrow> ('l, 'f) SamplingSpaceSavingSets \<Rightarrow> bool"
  for F :: "'f float64_ops" and eq :: "'l \<Rightarrow> 'l \<Rightarrow> bool" where
  reach_New:
    "NewHLLConfig F m hseeds rnd1 = Inr hc \<Longrightarrow> NewConfig n hc seeds rnd2 = Inr cfg
       \<Longrightarrow> reachable F eq (NewSamplingSpaceSavingSets cfg)"
| reach_Insert:
    "reachable F eq s \<Longrightarrow> key_order (counters s) ks
       \<Longrightarrow> reachable F eq (fst (Insert F eq ks s label it))"
| reach_Merge:
    "reachable F eq s \<Longrightarrow> reachable F eq other \<Longrightarrow> merge_orders F eq ko ks1 ks2 s other
       \<Longrightarrow> reachable F eq (fst (Merge F eq ko ks1 ks2 s other))"
| reach_Clear:
    "reachable F eq s \<Longrightarrow> reachable F eq (Clear s)"

text \<open>
  The keys of a map are apart when no two entries have keys that are equal: each key
  occurs once, and two stored keys that \<open>eq\<close> holds of are the same key.
\<close>

definition keys_apart :: "('l \<Rightarrow> 'l \<Rightarrow> bool) \<Rightarrow> ('l \<times> 'v) list \<Rightarrow> bool" where
  "keys_apart eq m =
     (distinct (map fst m) \<and> (\<forall>a \<in> set (map fst m). \<forall>b \<in> set (map fst m). eq a b \<longrightarrow> a = b))"

text \<open>Go's \<open>==\<close> on a label type without \<open>NaN\<close>: every label is equal to itself.\<close>

definition reflexive_symmetric :: "('l \<Rightarrow> 'l \<Rightarrow> bool) \<Rightarrow> bool" where
  "reflexive_symmetric eq = ((\<forall>a. eq a a) \<and> (\<forall>a b. eq a b \<longrightarrow> eq b a))"

section \<open>Reachable sketches and the value of \<open>Cardinality\<close>\<close>



definition zero_count :: "byte list \<Rightarrow> nat" where
  "zero_count rs = length (filter (\<lambda>r. r = 0) rs)"







section \<open>Library primitives: facts\<close>

lemma tz_nat_spec: "n \<noteq> 0 \<Longrightarrow> 2 ^ tz_nat n dvd n \<and> \<not> 2 ^ Suc (tz_nat n) dvd n"
proof (induction n rule: tz_nat.induct)
  case (1 n)
  show ?case
  proof (cases "odd n")
    case True
    then show ?thesis by (simp add: tz_nat.simps [of n])
  next
    case False
    with 1 have ih: "2 ^ tz_nat (n div 2) dvd n div 2 \<and> \<not> 2 ^ Suc (tz_nat (n div 2)) dvd n div 2"
      by auto
    from False 1 have tz: "tz_nat n = Suc (tz_nat (n div 2))"
      by (simp add: tz_nat.simps [of n])
    from False obtain k where k: "n = 2 * k" by (auto elim: evenE)
    with ih show ?thesis unfolding tz by simp
  qed
qed

lemma tz_nat_less: "n \<noteq> 0 \<Longrightarrow> n < 2 ^ k \<Longrightarrow> tz_nat n < k"
proof -
  assume n: "n \<noteq> 0" and lt: "n < 2 ^ k"
  from tz_nat_spec [OF n] have "2 ^ tz_nat n dvd n" by simp
  with n have "2 ^ tz_nat n \<le> n" by (auto intro: dvd_imp_le)
  with lt have "(2::nat) ^ tz_nat n < 2 ^ k" by linarith
  then show ?thesis by simp
qed

lemma TrailingZeros64_less: "x \<noteq> 0 \<Longrightarrow> TrailingZeros64 x < 64"
proof -
  assume "x \<noteq> 0"
  then have "unat x \<noteq> 0" by (simp add: unat_eq_0)
  moreover have "unat x < 2 ^ 64" using unsigned_less [of x] by simp
  ultimately show ?thesis using \<open>x \<noteq> 0\<close> by (simp add: TrailingZeros64_def tz_nat_less)
qed

lemma unat_two_power: "n < 64 \<Longrightarrow> unat (2 ^ n :: u64) = 2 ^ n"
proof -
  assume n: "n < 64"
  have lt: "(2::nat) ^ n < 2 ^ 64"
    using n by (intro power_strict_increasing) simp_all
  have "unat (word_of_nat (2 ^ n) :: u64) = 2 ^ n mod 2 ^ 64"
    by (simp only: unat_of_nat len_of_numeral_defs) simp
  also have "\<dots> = 2 ^ n" using lt by (rule mod_less)
  finally show ?thesis by simp
qed

lemma estimate_term_unat:
  "unat (estimate_term h) = (if h = 0 then 2 ^ 64 - 1 else 2 ^ TrailingZeros64 h)"
proof (cases "h = 0")
  case True
  then show ?thesis by (simp add: estimate_term_def TrailingZeros64_def MaxUint64_def)
next
  case False
  then have lt: "TrailingZeros64 h < 64" by (rule TrailingZeros64_less)
  with False show ?thesis by (simp add: estimate_term_def Let_def unat_two_power)
qed

lemma fnv64a_12345: "fnv64a ''12345'' = 16534377278781491704"
  by (simp add: fnv64a_def fnv_offset64_def fnv_prime64_def)

lemma TrailingZeros64_12345: "TrailingZeros64 16534377278781491704 = 3"
  by (simp add: TrailingZeros64_def tz_nat.simps)

section \<open>The cheap admission estimate without seeds\<close>

text \<open>
  C5, as stated: with an empty seed sequence the estimate is the trailing-zero count of
  the item's hash.  It is not: for the item \<open>12345\<close> the hash has 3 trailing zeros and the
  estimate is 8.
\<close>

theorem C5_estimate_is_not_the_count:
  "Seeds (config (NewSamplingSpaceSavingSets cfg1 :: (string, real) SamplingSpaceSavingSets)) = [] \<and>
   TrailingZeros64 (fnv64a ''12345'') = 3 \<and>
   cardinalityEstimate (NewSamplingSpaceSavingSets cfg1 :: (string, real) SamplingSpaceSavingSets)
     ''d'' ''12345'' = 8"
  by (simp add: NewSamplingSpaceSavingSets_def cfg1_def cardinalityEstimate_def estimate_term_def
      fnv64a_12345 TrailingZeros64_12345)

text \<open>
  C5, amended: with an empty seed sequence the estimate is two raised to the
  trailing-zero count of the item's unmixed hash, and the largest 64-bit value when
  that hash is 0 (the count is then 64).
\<close>

theorem C5_estimate_without_seeds:
  assumes "Seeds (config s) = []"
  shows "unat (cardinalityEstimate s label it) =
           (if fnv64a it = 0 then 2 ^ 64 - 1 else 2 ^ TrailingZeros64 (fnv64a it))"
  using assms by (simp add: cardinalityEstimate_def estimate_term_unat)

theorem C5_estimate_without_seeds_witness:
  "Seeds (config (NewSamplingSpaceSavingSets cfg1 :: (string, real) SamplingSpaceSavingSets)) = [] \<and>
   unat (cardinalityEstimate
           (NewSamplingSpaceSavingSets cfg1 :: (string, real) SamplingSpaceSavingSets) ''d'' ''12345'')
     = 2 ^ 3"
proof -
  let ?s = "NewSamplingSpaceSavingSets cfg1 :: (string, real) SamplingSpaceSavingSets"
  have h: "Seeds (config ?s) = []"
    by (simp add: NewSamplingSpaceSavingSets_def cfg1_def)
  from C5_estimate_without_seeds [OF h, of "''d''" "''12345''"] h show ?thesis
    by (simp add: fnv64a_12345 TrailingZeros64_12345)
qed

section \<open>Seeds are not validated\<close>

text \<open>
  C6, as stated: a sketch configuration with fewer than two seeds is rejected.  It is
  not: \<open>NewHLLConfig\<close> accepts an explicitly empty seed list, a sketch is built from the
  result, and its first insert panics on the read of the second seed.
\<close>

theorem C6_empty_seeds_accepted:
  "NewHLLConfig exactF 16 (Some []) zero_rnd = Inr hll16_noseeds \<and>
   NewHyperLogLog exactF hll16_noseeds = Inr fresh16_noseeds \<and>
   hll_Insert exactF fresh16_noseeds ''1'' = (fresh16_noseeds, Panic ''index out of range [1]'')"
  by (simp add: NewHLLConfig_def hll_alpha_def exactF_def hll16_noseeds_def NewHyperLogLog_def
      fresh16_noseeds_def hll_Insert_def hashItem_def)

text \<open>
  C6, amended: construction from a supplied seed list succeeds exactly when the
  register count is non-zero and has a single bit set, whatever the number of seeds, and
  keeps the seeds as supplied; the hashing step returns exactly when the configuration
  holds at least two seeds.
\<close>

theorem C6_seed_count_not_checked:
  "((\<exists>cfg. NewHLLConfig F n (Some ss) rnd = Inr cfg \<and> HLLSeeds cfg = ss \<and> NumRegisters cfg = n)
      = (n \<noteq> 0 \<and> n AND (n - 1) = 0)) \<and>
   ((\<exists>x. hashItem h it = Inr x) = (2 \<le> length (HLLSeeds (hll_config h))))"
  by (auto simp add: NewHLLConfig_def hashItem_def)

section \<open>Well-formedness is preserved\<close>

lemma unat_nat_sint: "0 \<le> sint (w::go_int) \<Longrightarrow> unat w = nat (sint w)"
proof -
  assume nn: "0 \<le> sint w"
  have "sint w < 2 ^ 64" using sint_lt [of w] by simp
  with nn have "take_bit 64 (sint w) = sint w" by (simp add: take_bit_int_eq_self)
  then have "uint w = sint w" using uint_sint [of w] by simp
  then show ?thesis by (simp add: unat_eq_nat_uint)
qed

lemma insertHash_config: "hll_config (fst (insertHash F h x)) = hll_config h"
  by (simp add: insertHash_def Let_def)

lemma insertHash_wf: "hll_wf h \<Longrightarrow> hll_wf (fst (insertHash F h x))"
  by (simp add: insertHash_def Let_def hll_wf_def)

lemma hll_Insert_config: "hll_config (fst (hll_Insert F h it)) = hll_config h"
  by (simp add: hll_Insert_def insertHash_config split: sum.splits)

lemma hll_Insert_wf: "hll_wf h \<Longrightarrow> hll_wf (fst (hll_Insert F h it))"
  by (simp add: hll_Insert_def insertHash_wf split: sum.splits)

lemma merge_registers_config: "hll_config (fst (merge_registers F oregs is h)) = hll_config h"
  by (induction F oregs "is" h rule: merge_registers.induct) (simp_all add: Let_def)

lemma merge_registers_length:
  "length (registers (fst (merge_registers F oregs is h))) = length (registers h)"
  by (induction F oregs "is" h rule: merge_registers.induct) (simp_all add: Let_def)

lemma merge_registers_Ok:
  "\<forall>i \<in> set is. i < length oregs \<and> i < length (registers h)
     \<Longrightarrow> snd (merge_registers F oregs is h) = Ok"
  by (induction F oregs "is" h rule: merge_registers.induct) (simp_all add: Let_def)

lemma merge_registers_not_Err: "snd (merge_registers F oregs is h) \<noteq> Err e"
  by (induction F oregs "is" h rule: merge_registers.induct) (simp_all add: Let_def)

lemma hll_Merge_config: "hll_config (fst (hll_Merge F h other)) = hll_config h"
  by (simp add: hll_Merge_def merge_registers_config split: CardinalitySketch.splits)

lemma hll_Merge_wf: "hll_wf h \<Longrightarrow> hll_wf (fst (hll_Merge F h other))"
  by (simp add: hll_Merge_def hll_wf_def merge_registers_config merge_registers_length
      split: CardinalitySketch.splits)

lemma hll_Merge_Ok:
  assumes "hll_wf h" "hll_wf o'"
    and "NumRegisters (hll_config o') = NumRegisters (hll_config h)"
  shows "snd (hll_Merge F h (IsHLL o')) = Ok"
proof -
  have "\<forall>i \<in> set [0..<nat (sint (NumRegisters (hll_config h)))].
          i < length (registers o') \<and>
          i < length (registers (h\<lparr>numZeroRegisters := 0, zInv := f_lit F 0\<rparr>))"
    using assms by (simp add: hll_wf_def)
  then show ?thesis
    using assms by (simp add: hll_Merge_def merge_registers_Ok)
qed

lemma hll_Clear_config: "hll_config (hll_Clear F h) = hll_config h"
  by (simp add: hll_Clear_def)

lemma hll_Clear_wf: "hll_wf h \<Longrightarrow> hll_wf (hll_Clear F h)"
  by (simp add: hll_Clear_def hll_wf_def)

lemma cached_Insert_wf: "counter_wf hc c \<Longrightarrow> counter_wf hc (fst (cached_Insert F c it))"
  using hll_Insert_config [of F "sketch c" it] hll_Insert_wf [of "sketch c" F it]
  by (auto simp add: cached_Insert_def counter_wf_def split: prod.splits outcome.splits)

lemma cached_Clear_wf: "counter_wf hc c \<Longrightarrow> counter_wf hc (cached_Clear F c)"
  by (simp add: cached_Clear_def counter_wf_def hll_Clear_config hll_Clear_wf)

lemma hll_Merge_res:
  "hll_Merge F h other = (h', r) \<Longrightarrow> hll_config h' = hll_config h \<and> (hll_wf h \<longrightarrow> hll_wf h')"
  using hll_Merge_config [of F h other] hll_Merge_wf [of h F other] by simp

lemma cached_Merge_wf: "counter_wf hc c \<Longrightarrow> counter_wf hc (fst (cached_Merge F c other))"
  by (auto simp add: cached_Merge_def counter_wf_def dest: hll_Merge_res
      split: prod.splits outcome.splits CardinalitySketch.splits)

lemma cached_Merge_Ok:
  assumes "counter_wf hc c" "counter_wf hc' oc" "NumRegisters hc' = NumRegisters hc"
  shows "snd (cached_Merge F c (IsCached oc)) = Ok"
  using hll_Merge_Ok [of "sketch c" "sketch oc" F] assms
  by (auto simp add: cached_Merge_def counter_wf_def split: prod.splits outcome.splits)

lemma NewHyperLogLog_wf:
  "NewHyperLogLog F hc = Inr h \<Longrightarrow> counter_wf hc (NewCachedSketch h)"
  by (auto simp add: NewHyperLogLog_def NewCachedSketch_def counter_wf_def hll_wf_def
      unat_nat_sint split: if_splits)

lemma NewHyperLogLog_Inr:
  "0 \<le> sint (NumRegisters hc) \<Longrightarrow> \<exists>h. NewHyperLogLog F hc = Inr h"
  by (simp add: NewHyperLogLog_def)

lemma NewHyperLogLog_nonneg:
  "NewHyperLogLog F hc = Inr h \<Longrightarrow> 0 \<le> sint (NumRegisters hc)"
  by (simp add: NewHyperLogLog_def split: if_splits)


section \<open>The map primitives\<close>

lemma go_lookup_None: "(go_lookup eq m k = None) = (\<forall>e \<in> set m. \<not> eq (fst e) k)"
  by (induction m) auto

lemma go_lookup_Some: "go_lookup eq m k = Some v \<Longrightarrow> \<exists>k'. (k', v) \<in> set m \<and> eq k' k"
  by (induction m) (auto split: if_splits)

lemma length_go_assign:
  "length (go_assign eq m k v) = (if go_lookup eq m k = None then Suc (length m) else length m)"
  by (induction m) auto

lemma go_lookup_pos: "go_lookup eq m k = Some v \<Longrightarrow> 0 < length m"
  by (cases m) auto

lemma length_go_delete:
  "length (go_delete eq m k) = (if go_lookup eq m k = None then length m else length m - 1)"
  by (induction m) (auto dest: go_lookup_pos)

lemma go_assign_absent: "go_lookup eq m k = None \<Longrightarrow> go_assign eq m k v = m @ [(k, v)]"
  by (induction m) (auto split: if_splits)

lemma go_delete_absent: "go_lookup eq m k = None \<Longrightarrow> go_delete eq m k = m"
  by (induction m) (auto split: if_splits)

lemma set_go_delete: "set (go_delete eq m k) \<subseteq> set m"
  by (induction m) auto

lemma go_assign_not_Nil: "go_assign eq m k v \<noteq> []"
  by (cases m) auto

lemma counters_wf_assign:
  "counters_wf hc m \<Longrightarrow> counter_wf hc c \<Longrightarrow> counters_wf hc (go_assign eq m k c)"
  by (induction m) (auto simp add: counters_wf_def)

lemma counters_wf_delete: "counters_wf hc m \<Longrightarrow> counters_wf hc (go_delete eq m k)"
  using set_go_delete [of eq m k] by (auto simp add: counters_wf_def list_all_iff)

lemma counters_wf_lookup:
  "counters_wf hc m \<Longrightarrow> go_lookup eq m k = Some c \<Longrightarrow> counter_wf hc c"
  by (auto simp add: counters_wf_def list_all_iff dest!: go_lookup_Some)

lemma go_range_Nil: "go_range [] ks = []"
  by (simp add: go_range_def)

lemma go_range_subset: "set (go_range m ks) \<subseteq> set m"
  by (auto simp add: go_range_def)

lemma go_range_length: "key_order m ks \<Longrightarrow> length (go_range m ks) = length m"
proof -
  assume k: "key_order m ks"
  then have "filter (\<lambda>i. i < length m) ks = ks"
    by (auto simp add: key_order_def filter_id_conv)
  then have "length (go_range m ks) = length ks" by (simp add: go_range_def)
  also have "\<dots> = card (set ks)" using k distinct_card [of ks] by (simp add: key_order_def)
  also have "\<dots> = length m" using k by (simp add: key_order_def)
  finally show ?thesis .
qed

lemma go_range_set: "key_order m ks \<Longrightarrow> set (go_range m ks) = set m"
proof -
  assume k: "key_order m ks"
  then have "filter (\<lambda>i. i < length m) ks = ks"
    by (auto simp add: key_order_def filter_id_conv)
  then have "set (go_range m ks) = (\<lambda>i. m ! i) ` set ks" by (simp add: go_range_def)
  also have "\<dots> = (\<lambda>i. m ! i) ` {..<length m}" using k by (simp add: key_order_def)
  also have "\<dots> = set m" by (auto simp add: set_conv_nth)
  finally show ?thesis .
qed

lemma counters_wf_range: "counters_wf hc m \<Longrightarrow> counters_wf hc (go_range m ks)"
  using go_range_subset [of m ks] by (auto simp add: counters_wf_def list_all_iff)

lemma merge_counters_wf:
  assumes "counters_wf hc cs"
    and "counters_wf hc' es"
    and "NumRegisters hc' = NumRegisters hc"
    and "es = [] \<or> 0 \<le> sint (NumRegisters hc)"
  shows "snd (merge_counters F eq hc es cs) = Ok \<and>
         counters_wf hc (fst (merge_counters F eq hc es cs)) \<and>
         length cs \<le> length (fst (merge_counters F eq hc es cs))"
  using assms(1,2,4)
proof (induction es arbitrary: cs)
  case Nil
  then show ?case by simp
next
  case (Cons e rest)
  from Cons.prems(2) have ow: "counter_wf hc' (snd e)" and rw: "counters_wf hc' rest"
    by (simp_all add: counters_wf_def)
  from Cons.prems(3) have nn: "0 \<le> sint (NumRegisters hc)" by simp
  show ?case
  proof (cases "go_lookup eq cs (fst e)")
    case existing: (Some existingCounter)
    with Cons.prems(1) have ew: "counter_wf hc existingCounter"
      by (rule counters_wf_lookup)
    obtain c r where m: "cached_Merge F existingCounter (IsCached (snd e)) = (c, r)"
      by fastforce
    from cached_Merge_Ok [OF ew ow assms(3), of F] m have r: "r = Ok" by simp
    from cached_Merge_wf [OF ew, of F "IsCached (snd e)"] m have cw: "counter_wf hc c" by simp
    have step: "merge_counters F eq hc (e # rest) cs =
                merge_counters F eq hc rest (go_assign eq cs (fst e) c)"
      using existing m r by simp
    have "counters_wf hc (go_assign eq cs (fst e) c)"
      using Cons.prems(1) cw by (rule counters_wf_assign)
    from Cons.IH [OF this rw] nn
    have "snd (merge_counters F eq hc rest (go_assign eq cs (fst e) c)) = Ok \<and>
          counters_wf hc (fst (merge_counters F eq hc rest (go_assign eq cs (fst e) c))) \<and>
          length (go_assign eq cs (fst e) c)
            \<le> length (fst (merge_counters F eq hc rest (go_assign eq cs (fst e) c)))"
      by simp
    moreover have "length cs \<le> length (go_assign eq cs (fst e) c)"
      by (simp add: length_go_assign)
    ultimately show ?thesis unfolding step by simp
  next
    case absent: None
    from NewHyperLogLog_Inr [OF nn, of F] obtain hll where h: "NewHyperLogLog F hc = Inr hll" ..
    from NewHyperLogLog_wf [OF h] have nw: "counter_wf hc (NewCachedSketch hll)" .
    obtain c r where m: "cached_Merge F (NewCachedSketch hll) (IsCached (snd e)) = (c, r)"
      by fastforce
    from cached_Merge_Ok [OF nw ow assms(3), of F] m have r: "r = Ok" by simp
    from cached_Merge_wf [OF nw, of F "IsCached (snd e)"] m have cw: "counter_wf hc c" by simp
    have step: "merge_counters F eq hc (e # rest) cs =
                merge_counters F eq hc rest (go_assign eq cs (fst e) c)"
      using absent h m r by simp
    have "counters_wf hc (go_assign eq cs (fst e) c)"
      using Cons.prems(1) cw by (rule counters_wf_assign)
    from Cons.IH [OF this rw] nn
    have "snd (merge_counters F eq hc rest (go_assign eq cs (fst e) c)) = Ok \<and>
          counters_wf hc (fst (merge_counters F eq hc rest (go_assign eq cs (fst e) c))) \<and>
          length (go_assign eq cs (fst e) c)
            \<le> length (fst (merge_counters F eq hc rest (go_assign eq cs (fst e) c)))"
      by simp
    moreover have "length cs \<le> length (go_assign eq cs (fst e) c)"
      by (simp add: length_go_assign)
    ultimately show ?thesis unfolding step by simp
  qed
qed

section \<open>Visiting the counters\<close>

lemma entries_of_length: "key_order cs ks \<Longrightarrow> length (entries_of cs ks) = length cs"
  by (simp add: entries_of_def go_range_length)

lemma sort_desc_length: "length (sort_desc es) = length es"
  by (simp add: sort_desc_def)

lemma sort_desc_set: "set (sort_desc es) = set es"
  by (simp add: sort_desc_def)

lemma fold_delete_subset: "set (fold (delete_entry eq) es cs) \<subseteq> set cs"
proof (induction es arbitrary: cs)
  case Nil
  then show ?case by simp
next
  case (Cons a es)
  have "set (fold (delete_entry eq) es (delete_entry eq a cs)) \<subseteq> set (delete_entry eq a cs)"
    by (rule Cons.IH)
  also have "\<dots> \<subseteq> set cs" by (simp add: delete_entry_def set_go_delete)
  finally show ?case by simp
qed

lemma merge_truncate_not_Err: "snd (merge_truncate eq cap ks cs) \<noteq> Err e"
  by (simp add: merge_truncate_def Let_def)

lemma merge_truncate_subset: "set (fst (merge_truncate eq cap ks cs)) \<subseteq> set cs"
  by (simp add: merge_truncate_def Let_def fold_delete_subset)

lemma merge_truncate_within:
  "int (length cs) \<le> sint cap \<Longrightarrow> merge_truncate eq cap ks cs = (cs, Ok)"
  by (simp add: merge_truncate_def)

lemma merge_truncate_Ok:
  "key_order cs ks \<Longrightarrow> 0 \<le> sint cap \<Longrightarrow> snd (merge_truncate eq cap ks cs) = Ok"
  by (simp add: merge_truncate_def Let_def sort_desc_length entries_of_length)

lemma merge_validate_registers:
  "merge_validate s other = Ok \<Longrightarrow>
     NumRegisters (CardinalitySketchConfig (config other)) =
     NumRegisters (CardinalitySketchConfig (config s))"
  by (simp add: merge_validate_def split: if_splits)

lemma merge_validate_cases: "merge_validate s other = Ok \<or> (\<exists>e. merge_validate s other = Err e)"
  by (simp add: merge_validate_def)

section \<open>The shape of an insert\<close>

lemma Insert_config: "config (fst (Insert F eq ks s label it)) = config s"
  by (simp add: Insert_def Let_def split: option.splits prod.splits sum.splits)

lemma Insert_wf:
  assumes wf: "tracker_wf s"
  shows "tracker_wf (fst (Insert F eq ks s label it))"
proof -
  let ?hc = "CardinalitySketchConfig (config s)"
  from wf have cws: "counters_wf ?hc (counters s)" by (simp add: tracker_wf_def)
  show ?thesis
  proof (cases "go_lookup eq (counters s) label")
    case (Some counter)
    from cws Some have cw: "counter_wf ?hc counter" by (rule counters_wf_lookup)
    from Some have "counters s \<noteq> []" by auto
    with wf have nn: "0 \<le> sint (NumRegisters ?hc)" by (simp add: tracker_wf_def)
    obtain c r where ins: "cached_Insert F counter it = (c, r)" by fastforce
    from cached_Insert_wf [OF cw, of F it] ins have "counter_wf ?hc c" by simp
    with cws have "counters_wf ?hc (go_assign eq (counters s) label c)"
      by (intro counters_wf_assign)
    with Some ins nn show ?thesis by (simp add: Insert_def tracker_wf_def)
  next
    case None
    show ?thesis
    proof (cases "int (length (counters s)) < sint (MaxNumCounters (config s))")
      case True
      show ?thesis
      proof (cases "NewHyperLogLog F ?hc")
        case (Inl p)
        with None True wf show ?thesis by (simp add: Insert_def)
      next
        case (Inr hll)
        obtain c r where ins: "cached_Insert F (NewCachedSketch hll) it = (c, r)" by fastforce
        from cached_Insert_wf [OF NewHyperLogLog_wf [OF Inr], of F it] ins
        have "counter_wf ?hc c" by simp
        with cws have "counters_wf ?hc (go_assign eq (counters s) label c)"
          by (intro counters_wf_assign)
        with None True Inr ins NewHyperLogLog_nonneg [OF Inr] show ?thesis
          by (simp add: Insert_def tracker_wf_def)
      qed
    next
      case False
      obtain minLabel minCardinality
        where sc: "scan_min (counters s) ks = (minLabel, minCardinality)" by fastforce
      show ?thesis
      proof (cases "threshold s < cardinalityEstimate s label it \<and>
                    minCardinality < cardinalityEstimate s label it")
        case no: False
        with None False sc wf show ?thesis by (auto simp add: Insert_def Let_def tracker_wf_def)
      next
        case yes: True
        show ?thesis
        proof (cases "case minLabel of None \<Rightarrow> None | Some ml \<Rightarrow>
                        map_option (Pair ml) (go_lookup eq (counters s) ml)")
          case none: None
          with None False sc yes wf show ?thesis
            by (auto simp add: Insert_def Let_def tracker_wf_def)
        next
          case (Some p)
          obtain ml minCounter where p: "p = (ml, minCounter)" by fastforce
          with Some have mc: "go_lookup eq (counters s) ml = Some minCounter"
            by (auto split: option.splits)
          from cws mc have cw: "counter_wf ?hc minCounter" by (rule counters_wf_lookup)
          from mc have "counters s \<noteq> []" by auto
          with wf have nn: "0 \<le> sint (NumRegisters ?hc)" by (simp add: tracker_wf_def)
          obtain c r where ins: "cached_Insert F (cached_Clear F minCounter) it = (c, r)"
            by fastforce
          from cached_Insert_wf [OF cached_Clear_wf [OF cw], of F F it] ins
          have "counter_wf ?hc c" by simp
          with cws have "counters_wf ?hc (go_assign eq (go_delete eq (counters s) ml) label c)"
            by (intro counters_wf_assign counters_wf_delete)
          with None False sc yes Some p ins nn show ?thesis
            by (simp add: Insert_def Let_def tracker_wf_def)
        qed
      qed
    qed
  qed
qed

lemma Insert_capacity:
  assumes cap: "within_capacity s"
  shows "within_capacity (fst (Insert F eq ks s label it))"
proof (cases "go_lookup eq (counters s) label")
  case (Some counter)
  with cap show ?thesis
    by (simp add: Insert_def within_capacity_def length_go_assign split: prod.splits)
next
  case None
  show ?thesis
  proof (cases "int (length (counters s)) < sint (MaxNumCounters (config s))")
    case True
    with None cap show ?thesis
      by (simp add: Insert_def within_capacity_def length_go_assign
          split: prod.splits sum.splits)
  next
    case False
    obtain minLabel minCardinality
      where sc: "scan_min (counters s) ks = (minLabel, minCardinality)" by fastforce
    show ?thesis
    proof (cases "threshold s < cardinalityEstimate s label it \<and>
                  minCardinality < cardinalityEstimate s label it")
      case no: False
      with None False sc cap show ?thesis by (auto simp add: Insert_def Let_def within_capacity_def)
    next
      case yes: True
      show ?thesis
      proof (cases "case minLabel of None \<Rightarrow> None | Some ml \<Rightarrow>
                      map_option (Pair ml) (go_lookup eq (counters s) ml)")
        case none: None
        with None False sc yes cap show ?thesis
          by (auto simp add: Insert_def Let_def within_capacity_def)
      next
        case (Some p)
        obtain ml minCounter where p: "p = (ml, minCounter)" by fastforce
        with Some have mc: "go_lookup eq (counters s) ml = Some minCounter"
          by (auto split: option.splits)
        then have pos: "0 < length (counters s)" by auto
        obtain c r where ins: "cached_Insert F (cached_Clear F minCounter) it = (c, r)"
          by fastforce
        have "length (go_assign eq (go_delete eq (counters s) ml) label c)
                \<le> Suc (length (go_delete eq (counters s) ml))"
          by (simp add: length_go_assign)
        also have "\<dots> = length (counters s)" using mc pos by (simp add: length_go_delete)
        finally have "length (go_assign eq (go_delete eq (counters s) ml) label c)
                        \<le> length (counters s)" .
        with None False sc yes Some p ins cap show ?thesis
          by (simp add: Insert_def Let_def within_capacity_def)
      qed
    qed
  qed
qed

section \<open>The shape of a merge\<close>

lemma Merge_invalid:
  "merge_validate s other = Err e \<Longrightarrow> Merge F eq ko ks1 ks2 s other = (s, Err e)"
  by (simp add: Merge_def)

lemma Merge_counters_Ok:
  assumes wf: "tracker_wf s" and wfo: "tracker_wf other"
    and v: "merge_validate s other = Ok"
  shows "snd (merge_counters F eq (CardinalitySketchConfig (config s))
                (go_range (counters other) ko) (counters s)) = Ok \<and>
         counters_wf (CardinalitySketchConfig (config s))
           (fst (merge_counters F eq (CardinalitySketchConfig (config s))
                   (go_range (counters other) ko) (counters s))) \<and>
         length (counters s)
           \<le> length (fst (merge_counters F eq (CardinalitySketchConfig (config s))
                            (go_range (counters other) ko) (counters s)))"
proof (rule merge_counters_wf)
  show "counters_wf (CardinalitySketchConfig (config s)) (counters s)"
    using wf by (simp add: tracker_wf_def)
  show "counters_wf (CardinalitySketchConfig (config other)) (go_range (counters other) ko)"
    using wfo by (simp add: tracker_wf_def counters_wf_range)
  show "NumRegisters (CardinalitySketchConfig (config other)) =
        NumRegisters (CardinalitySketchConfig (config s))"
    using v by (rule merge_validate_registers)
  then show "go_range (counters other) ko = [] \<or>
             0 \<le> sint (NumRegisters (CardinalitySketchConfig (config s)))"
    using wfo by (auto simp add: tracker_wf_def go_range_Nil)
qed

lemma Merge_valid:
  assumes wf: "tracker_wf s" and wfo: "tracker_wf other"
    and v: "merge_validate s other = Ok"
  shows "Merge F eq ko ks1 ks2 s other =
     (case merge_truncate eq (MaxNumCounters (config s)) ks1
             (fst (merge_counters F eq (CardinalitySketchConfig (config s))
                     (go_range (counters other) ko) (counters s))) of
        (cs2, Ok) \<Rightarrow> (s\<lparr>counters := cs2, threshold := min_threshold cs2 ks2\<rparr>, Ok)
      | (cs2, r) \<Rightarrow> (s\<lparr>counters := cs2\<rparr>, r))"
proof -
  obtain cs1 r where m: "merge_counters F eq (CardinalitySketchConfig (config s))
                           (go_range (counters other) ko) (counters s) = (cs1, r)" by fastforce
  with Merge_counters_Ok [OF wf wfo v, of F eq ko] have "r = Ok" by simp
  with m v show ?thesis by (simp add: Merge_def)
qed

lemma Merge_Err_unchanged:
  assumes wf: "tracker_wf s" and wfo: "tracker_wf other"
    and err: "snd (Merge F eq ko ks1 ks2 s other) = Err e"
  shows "merge_validate s other = Err e \<and> fst (Merge F eq ko ks1 ks2 s other) = s"
proof -
  from merge_validate_cases [of s other] show ?thesis
  proof
    assume v: "merge_validate s other = Ok"
    obtain cs2 r where t: "merge_truncate eq (MaxNumCounters (config s)) ks1
             (fst (merge_counters F eq (CardinalitySketchConfig (config s))
                     (go_range (counters other) ko) (counters s))) = (cs2, r)" by fastforce
    with merge_truncate_not_Err [of eq "MaxNumCounters (config s)" ks1 _ e]
    have "r \<noteq> Err e" by (metis snd_conv)
    with Merge_valid [OF wf wfo v, of F eq ko ks1 ks2] t err show ?thesis
      by (cases r) simp_all
  next
    assume "\<exists>e'. merge_validate s other = Err e'"
    then obtain e' where "merge_validate s other = Err e'" ..
    with Merge_invalid [OF this, of F eq ko ks1 ks2] err show ?thesis by simp
  qed
qed

lemma Merge_config: "config (fst (Merge F eq ko ks1 ks2 s other)) = config s"
  by (simp add: Merge_def split: outcome.splits prod.splits)

lemma Merge_wf:
  assumes wf: "tracker_wf s" and wfo: "tracker_wf other"
  shows "tracker_wf (fst (Merge F eq ko ks1 ks2 s other))"
proof -
  let ?hc = "CardinalitySketchConfig (config s)"
  let ?cs1 = "fst (merge_counters F eq ?hc (go_range (counters other) ko) (counters s))"
  from merge_validate_cases [of s other] show ?thesis
  proof
    assume "\<exists>e. merge_validate s other = Err e"
    then obtain e where "merge_validate s other = Err e" ..
    from Merge_invalid [OF this, of F eq ko ks1 ks2] wf show ?thesis by simp
  next
    assume v: "merge_validate s other = Ok"
    note mc = Merge_counters_Ok [OF wf wfo v, of F eq ko]
    obtain cs2 r where t: "merge_truncate eq (MaxNumCounters (config s)) ks1 ?cs1 = (cs2, r)"
      by fastforce
    from merge_truncate_subset [of eq "MaxNumCounters (config s)" ks1 ?cs1] t
    have sub: "set cs2 \<subseteq> set ?cs1" by simp
    have cw: "counters_wf ?hc cs2"
      using sub mc by (auto simp add: counters_wf_def list_all_iff)
    have nn: "cs2 = [] \<or> 0 \<le> sint (NumRegisters ?hc)"
    proof (cases "go_range (counters other) ko = []")
      case True
      then have "?cs1 = counters s" by simp
      with sub wf show ?thesis by (auto simp add: tracker_wf_def)
    next
      case False
      then have "counters other \<noteq> []" by (auto simp add: go_range_Nil)
      with wfo merge_validate_registers [OF v] show ?thesis
        by (auto simp add: tracker_wf_def)
    qed
    have "counters (fst (Merge F eq ko ks1 ks2 s other)) = cs2 \<and>
          config (fst (Merge F eq ko ks1 ks2 s other)) = config s"
      using Merge_valid [OF wf wfo v, of F eq ko ks1 ks2] t by (cases r) simp_all
    with cw nn show ?thesis by (simp add: tracker_wf_def)
  qed
qed

section \<open>Invariants of the reachable trackers\<close>

lemma New_wf: "tracker_wf (NewSamplingSpaceSavingSets cfg)"
  by (simp add: tracker_wf_def counters_wf_def NewSamplingSpaceSavingSets_def)

lemma Clear_wf: "tracker_wf (Clear s)"
  by (simp add: tracker_wf_def counters_wf_def Clear_def)

lemma reachable_wf: "reachable F eq s \<Longrightarrow> tracker_wf s"
proof (induction rule: reachable.induct)
  case (reach_New m hseeds rnd1 hc n seeds rnd2 cfg)
  show ?case by (rule New_wf)
next
  case (reach_Insert s ks label it)
  then show ?case by (simp add: Insert_wf)
next
  case (reach_Merge s other ko ks1 ks2)
  then show ?case by (simp add: Merge_wf)
next
  case (reach_Clear s)
  show ?case by (rule Clear_wf)
qed

lemma hll16_built: "NewHLLConfig exactF 16 (Some [8, 9]) zero_rnd = Inr hll16"
  by (simp add: NewHLLConfig_def hll_alpha_def exactF_def hll16_def)

lemma cfg1_built: "NewConfig 1 hll16 (Some []) zero_rnd = Inr cfg1"
  by (simp add: NewConfig_def cfg1_def)

lemma cfg2_built: "NewConfig 2 hll16 (Some []) zero_rnd = Inr cfg2"
  by (simp add: NewConfig_def cfg2_def)

lemma tracker1_reachable: "reachable exactF eq tracker1"
  unfolding tracker1_def by (rule reach_New [OF hll16_built cfg1_built])

lemma tracker2_reachable: "reachable exactF eq tracker2"
  unfolding tracker2_def by (rule reach_New [OF hll16_built cfg2_built])

lemma nan_tracker_reachable: "reachable exactF eq nan_tracker"
  unfolding nan_tracker_def by (rule reach_New [OF hll16_built cfg1_built])

section \<open>A failed merge changes nothing\<close>

lemma seeds_differ_iff: "length xs = length ys \<Longrightarrow> seeds_differ xs ys = (xs \<noteq> ys)"
proof -
  assume len: "length xs = length ys"
  have "seeds_differ xs ys = (\<exists>i<length xs. xs ! i \<noteq> ys ! i)"
    by (simp add: seeds_differ_def list_ex_iff Bex_def)
  also have "\<dots> = (xs \<noteq> ys)"
    using len by (simp add: list_eq_iff_nth_eq)
  finally show ?thesis .
qed

lemma merge_validate_Err_iff:
  "(\<exists>e. merge_validate s other = Err e) =
     (MaxNumCounters (config s) \<noteq> MaxNumCounters (config other) \<or>
      Seeds (config s) \<noteq> Seeds (config other) \<or>
      NumRegisters (CardinalitySketchConfig (config s)) \<noteq>
        NumRegisters (CardinalitySketchConfig (config other)))"
proof (cases "length (Seeds (config s)) = length (Seeds (config other))")
  case True
  then show ?thesis by (simp add: merge_validate_def seeds_differ_iff)
next
  case False
  then have "Seeds (config s) \<noteq> Seeds (config other)" by auto
  with False show ?thesis by (simp add: merge_validate_def)
qed

text \<open>
  C9: when \<open>Merge\<close> returns an error, the receiver is exactly as it was, and the error
  is the one the validation of the two configurations returned, before any counter was
  touched: the capacities, the seed sequences or the register counts differ.  \<open>Merge\<close>
  never writes to its argument.
\<close>

theorem C9_failed_merge_changes_nothing:
  assumes "reachable F eq s" and "reachable F eq other"
    and "snd (Merge F eq ko ks1 ks2 s other) = Err e"
  shows "fst (Merge F eq ko ks1 ks2 s other) = s \<and> merge_validate s other = Err e \<and>
         (MaxNumCounters (config s) \<noteq> MaxNumCounters (config other) \<or>
          Seeds (config s) \<noteq> Seeds (config other) \<or>
          NumRegisters (CardinalitySketchConfig (config s)) \<noteq>
            NumRegisters (CardinalitySketchConfig (config other)))"
proof -
  from Merge_Err_unchanged [OF reachable_wf [OF assms(1)] reachable_wf [OF assms(2)] assms(3)]
  have u: "merge_validate s other = Err e \<and> fst (Merge F eq ko ks1 ks2 s other) = s" .
  then have "\<exists>e. merge_validate s other = Err e" by blast
  then have "MaxNumCounters (config s) \<noteq> MaxNumCounters (config other) \<or>
          Seeds (config s) \<noteq> Seeds (config other) \<or>
          NumRegisters (CardinalitySketchConfig (config s)) \<noteq>
            NumRegisters (CardinalitySketchConfig (config other))"
    by (simp only: merge_validate_Err_iff)
  with u show ?thesis by blast
qed

theorem C9_failed_merge_changes_nothing_witness:
  "reachable exactF (=) tracker1 \<and> reachable exactF (=) tracker2 \<and>
   snd (Merge exactF (=) [] [] [] tracker1 tracker2) = Err ''config mismatch'' \<and>
   fst (Merge exactF (=) [] [] [] tracker1 tracker2) = tracker1"
proof -
  have err: "snd (Merge exactF (=) [] [] [] tracker1 tracker2) = Err ''config mismatch''"
    by (simp add: Merge_def merge_validate_def tracker1_def tracker2_def
        NewSamplingSpaceSavingSets_def cfg1_def cfg2_def)
  from C9_failed_merge_changes_nothing [OF tracker1_reachable tracker2_reachable err]
    tracker1_reachable tracker2_reachable err
  show ?thesis by simp
qed

section \<open>Top\<close>

text \<open>
  C10: \<open>Top\<close> returns for every \<open>k \<ge> 0\<close>, with \<open>min k n\<close> entries of a tracker that holds
  \<open>n\<close> counters, and panics on the slice \<open>entries[:k]\<close> for every \<open>k < 0\<close>, on the empty
  tracker too.  \<open>Top\<close> is a function of the tracker alone and returns no new state.
\<close>

theorem C10_Top_total_iff_nonnegative:
  assumes "key_order (counters s) ks"
  shows "(0 \<le> sint k \<longrightarrow>
            (\<exists>r. Top ks s k = Inr r \<and> length r = min (nat (sint k)) (length (counters s)))) \<and>
         (sint k < 0 \<longrightarrow> Top ks s k = Inl ''slice bounds out of range'')"
proof -
  have len: "length (sort_desc (entries_of (counters s) ks)) = length (counters s)"
    by (simp add: sort_desc_length entries_of_length [OF assms])
  show ?thesis
    by (auto simp add: Top_def Let_def len min_def)
qed

theorem C10_Top_total_iff_nonnegative_witness:
  "key_order (counters tracker_a) [0] \<and>
   (0::int) \<le> sint (3 :: go_int) \<and>
   (\<exists>r. Top [0] tracker_a 3 = Inr r \<and> length r = 1) \<and>
   key_order (counters tracker1) [] \<and>
   sint (- 1 :: go_int) < 0 \<and>
   Top [] tracker1 (- 1) = Inl ''slice bounds out of range''"
proof -
  have ka: "key_order (counters tracker_a) [0]"
    by (auto simp add: key_order_def tracker_a_def)
  have k: "key_order (counters tracker1) []"
    by (simp add: key_order_def tracker1_def NewSamplingSpaceSavingSets_def)
  have "length (counters tracker_a) = 1"
    by (simp add: tracker_a_def)
  with C10_Top_total_iff_nonnegative [OF ka, of 3] C10_Top_total_iff_nonnegative [OF k, of "- 1"]
    ka k
  show ?thesis by simp
qed

section \<open>Running the sketch on concrete items\<close>

lemma two_powr_neg: "(2::real) powr (- real_of_int (int n)) = 1 / 2 ^ n"
  by (simp add: powr_minus_divide powr_realpow)

lemma pow2neg_exact: "pow2neg exactF r = 1 / 2 ^ unat r"
proof -
  have "pow2neg exactF r = (2::real) powr (- real_of_int (uint r))"
    by (simp add: pow2neg_def exactF_def)
  also have "\<dots> = (2::real) powr (- real_of_int (int (unat r)))"
    by (simp only: uint_nat)
  also have "\<dots> = 1 / 2 ^ unat r" by (rule two_powr_neg)
  finally show ?thesis .
qed

lemma floor_ln_16_15: "\<lfloor>16 * ln (16 / 15 :: real)\<rfloor> = 1"
proof -
  have up: "ln (1 + 1 / 15 :: real) \<le> 1 / 15" by (rule ln_add_one_self_le_self) simp
  have "ln (15 / 16 :: real) \<le> 15 / 16 - 1" by (rule ln_le_minus_one) simp
  moreover have "ln (16 / 15 :: real) = - ln (15 / 16)"
    using ln_inverse [of "15 / 16 :: real"] by simp
  ultimately have lo: "1 / 16 \<le> ln (16 / 15 :: real)" by simp
  from up have "ln (16 / 15 :: real) \<le> 1 / 15" by simp
  with lo show ?thesis by (simp add: floor_eq_iff)
qed

lemma floor_ln_8_7: "\<lfloor>16 * ln (8 / 7 :: real)\<rfloor> = 2"
proof -
  have up: "ln (1 + 1 / 7 :: real) \<le> 1 / 7" by (rule ln_add_one_self_le_self) simp
  have "ln (7 / 8 :: real) \<le> 7 / 8 - 1" by (rule ln_le_minus_one) simp
  moreover have "ln (8 / 7 :: real) = - ln (7 / 8)"
    using ln_inverse [of "7 / 8 :: real"] by simp
  ultimately have lo: "1 / 8 \<le> ln (8 / 7 :: real)" by simp
  from up have "ln (8 / 7 :: real) \<le> 1 / 7" by simp
  with lo show ?thesis by (simp add: floor_eq_iff)
qed

lemma fnv64a_items:
  "fnv64a ''0'' = 12638135523509116079"
  "fnv64a ''2'' = 12638137722532372501"
  "fnv64a ''5'' = 12638130025950975024"
  by (simp_all add: fnv64a_def fnv_offset64_def fnv_prime64_def)

lemma NewHyperLogLog_hll16: "NewHyperLogLog exactF hll16 = Inr fresh16"
  by (simp add: NewHyperLogLog_def hll16_def fresh16_def exactF_def)

lemma Len64_15: "Len64 15 = 4"
  by (simp add: Len64_def len_nat.simps)

lemma rank_items:
  "LeadingZeros64 789883470219319754 = 4"
  "LeadingZeros64 789883607658273281 = 4"
  "LeadingZeros64 789883126621935939 = 4"
  by (simp_all add: LeadingZeros64_def Len64_def len_nat.simps)

lemma insertHash_16:
  assumes "NumRegisters (hll_config h) = 16"
  shows "insertHash F h x =
     (if length (registers h) \<le> unat (x AND 15) then (h, Panic ''index out of range'')
      else if registers h ! unat (x AND 15) < of_nat (LeadingZeros64 (drop_bit 4 x)) + 1 then
        (h\<lparr> numZeroRegisters :=
               (if registers h ! unat (x AND 15) = 0 then numZeroRegisters h - 1
                else numZeroRegisters h),
             zInv := f_add F (f_sub F (zInv h) (pow2neg F (registers h ! unat (x AND 15))))
                       (pow2neg F (of_nat (LeadingZeros64 (drop_bit 4 x)) + 1)),
             registers := (registers h)[unat (x AND 15) := of_nat (LeadingZeros64 (drop_bit 4 x)) + 1] \<rparr>,
         Ok)
      else (h, Ok))"
  using assms by (simp add: insertHash_def Let_def Len64_15)

lemma insertHash_fresh16_0:
  "insertHash exactF fresh16 12638135523509116070 = (sketch_0, Ok)"
  by (simp add: insertHash_16 fresh16_def sketch_0_def hll16_def rank_items pow2neg_exact)
     (simp add: exactF_def)


lemma insertHash_sketch_0_2:
  "insertHash exactF sketch_0 12638137722532372508 = (sketch_02, Ok)"
  by (simp add: insertHash_16 sketch_0_def sketch_02_def hll16_def rank_items pow2neg_exact)
     (simp add: exactF_def)

lemma insertHash_fresh16_5:
  "insertHash exactF fresh16 12638130025950975033 = (sketch_5, Ok)"
  by (simp add: insertHash_16 fresh16_def sketch_5_def hll16_def rank_items pow2neg_exact)
     (simp add: exactF_def)

lemma hll_Insert_items:
  "hll_Insert exactF fresh16 ''0'' = (sketch_0, Ok)"
  "hll_Insert exactF sketch_0 ''2'' = (sketch_02, Ok)"
  "hll_Insert exactF fresh16 ''5'' = (sketch_5, Ok)"
  using insertHash_fresh16_0 insertHash_sketch_0_2 insertHash_fresh16_5
  by (simp_all add: hll_Insert_def hashItem_def fnv64a_items fresh16_def sketch_0_def hll16_def)

lemma hll_Clear_items:
  "hll_Clear exactF sketch_02 = fresh16"
  "hll_Clear exactF sketch_5 = fresh16"
  by (simp_all add: hll_Clear_def sketch_02_def sketch_5_def fresh16_def hll16_def exactF_def
      map_replicate_const)

lemma hll_Cardinality_items:
  "hll_Cardinality exactF sketch_0 = 1"
  "hll_Cardinality exactF sketch_5 = 1"
  "hll_Cardinality exactF sketch_02 = 2"
  using floor_ln_16_15 floor_ln_8_7
  by (simp_all add: hll_Cardinality_def linearCounting_def sketch_0_def sketch_5_def sketch_02_def
      hll16_def exactF_def Let_def)

lemma cached_Insert_items:
  "cached_Insert exactF (NewCachedSketch fresh16) ''0'' = (\<lparr> sketch = sketch_0, cardinality = 1 \<rparr>, Ok)"
  "cached_Insert exactF \<lparr> sketch = sketch_0, cardinality = 1 \<rparr> ''2''
     = (\<lparr> sketch = sketch_02, cardinality = 2 \<rparr>, Ok)"
  "cached_Insert exactF (cached_Clear exactF \<lparr> sketch = sketch_02, cardinality = 2 \<rparr>) ''5''
     = (\<lparr> sketch = sketch_5, cardinality = 1 \<rparr>, Ok)"
  "cached_Insert exactF (cached_Clear exactF \<lparr> sketch = sketch_5, cardinality = 1 \<rparr>) ''5''
     = (\<lparr> sketch = sketch_5, cardinality = 1 \<rparr>, Ok)"
  by (simp_all add: cached_Insert_def cached_Clear_def NewCachedSketch_def hll_Insert_items
      hll_Clear_items hll_Cardinality_items)

section \<open>Running the tracker on a concrete stream\<close>

lemma estimate_5: "cardinalityEstimate s label ''5'' = (if Seeds (config s) = [] then 16 else
    fold (\<lambda>seed totalEstimate. totalEstimate + estimate_term (12638130025950975024 XOR seed))
      (Seeds (config s)) 0 div of_nat (length (Seeds (config s))))"
  by (simp add: cardinalityEstimate_def estimate_term_def fnv64a_items TrailingZeros64_def
      tz_nat.simps)

lemma Insert_a_0: "Insert exactF (=) [] tracker1 ''a'' ''0'' = (tracker_a, Ok)"
  by (simp add: Insert_def tracker1_def tracker_a_def NewSamplingSpaceSavingSets_def cfg1_def
      NewHyperLogLog_hll16 cached_Insert_items)

lemma Insert_a_2: "Insert exactF (=) [0] tracker_a ''a'' ''2'' = (tracker_aa, Ok)"
  by (simp add: Insert_def tracker_a_def tracker_aa_def cached_Insert_items)

lemma Insert_b_5: "Insert exactF (=) [0] tracker_aa ''b'' ''5'' = (tracker_b, Ok)"
  by (simp add: Insert_def tracker_aa_def tracker_b_def cfg1_def estimate_5 scan_min_def
      go_range_def scan_step_def cached_Cardinality_def MaxUint64_def cached_Insert_items Let_def)


lemma Insert_NaN_0: "Insert exactF float_eq [] nan_tracker NaN ''0'' = (nan_tracker_1, Ok)"
  by (simp add: Insert_def nan_tracker_def nan_tracker_1_def NewSamplingSpaceSavingSets_def
      cfg1_def NewHyperLogLog_hll16 cached_Insert_items)

lemma upt_16: "[0..<16] = [0, 1, 2, 3, 4, 5, 6, 7, 8, 9, 10, 11, 12, 13, 14, 15]"
  by (simp add: upt_conv_Cons)

lemma replicate_16: "replicate 16 (0::byte) = [0, 0, 0, 0, 0, 0, 0, 0, 0, 0, 0, 0, 0, 0, 0, 0]"
  by (simp add: numeral_eq_Suc)

lemma hll_Merge_fresh16_sketch_0: "hll_Merge exactF fresh16 (IsHLL sketch_0) = (sketch_0, Ok)"
  by (simp add: hll_Merge_def fresh16_def sketch_0_def hll16_def upt_16 replicate_16 Let_def
      pow2neg_exact)
     (simp add: exactF_def)

lemma cached_Merge_bare:
  "cached_Merge exactF (NewCachedSketch fresh16) (IsHLL sketch_0)
     = (\<lparr> sketch = sketch_0, cardinality = 0 \<rparr>, Ok)"
  by (simp add: cached_Merge_def NewCachedSketch_def hll_Merge_fresh16_sketch_0)

lemma cached_Merge_wrapped:
  "cached_Merge exactF (NewCachedSketch fresh16) (IsCached \<lparr> sketch = sketch_0, cardinality = 1 \<rparr>)
     = (\<lparr> sketch = sketch_0, cardinality = 1 \<rparr>, Ok)"
  by (simp add: cached_Merge_def NewCachedSketch_def hll_Merge_fresh16_sketch_0
      hll_Cardinality_items)

lemma Merge_NaN:
  "Merge exactF float_eq [0] [0, 1] [0, 1] nan_tracker_1 nan_tracker_1 = (nan_tracker_2, Ok)"
  by (simp add: Merge_def merge_validate_def seeds_differ_def nan_tracker_1_def nan_tracker_2_def
      cfg1_def go_range_def NewHyperLogLog_hll16 cached_Merge_wrapped merge_truncate_def
      entries_of_def sort_desc_def cached_Cardinality_def delete_entry_def min_threshold_def
      threshold_step_def MaxUint64_def Let_def)

section \<open>The minimum scans\<close>

lemma le_MaxUint64: "x \<le> MaxUint64"
proof -
  have "x \<le> (- 1 :: u64)" by (rule word_n1_ge)
  also have "(- 1 :: u64) = MaxUint64" by (simp add: MaxUint64_def)
  finally show ?thesis .
qed



lemma fold_threshold_le_start: "fold threshold_step es t \<le> t"
proof (induction es arbitrary: t)
  case Nil
  show ?case by simp
next
  case (Cons e es)
  have "threshold_step e t \<le> t"
    by (auto simp add: threshold_step_def)
  with Cons.IH [of "threshold_step e t"] show ?case by simp
qed

lemma fold_threshold_le_entry:
  assumes "e \<in> set es"
  shows "fold threshold_step es t \<le> cached_Cardinality (snd e)"
  using assms
proof (induction es arbitrary: t)
  case Nil
  then show ?case by simp
next
  case (Cons k es)
  show ?case
  proof (cases "k = e")
    case True
    have "threshold_step e t \<le> cached_Cardinality (snd e)"
      by (auto simp add: threshold_step_def not_less)
    with fold_threshold_le_start [of es "threshold_step e t"] True show ?thesis by simp
  next
    case False
    with Cons show ?thesis by simp
  qed
qed

lemma fold_threshold_attained:
  "fold threshold_step es t = t \<or>
   (\<exists>e \<in> set es. fold threshold_step es t = cached_Cardinality (snd e))"
proof (induction es arbitrary: t)
  case Nil
  show ?case by simp
next
  case (Cons k es)
  from Cons.IH [of "threshold_step k t"] show ?case
    by (auto simp add: threshold_step_def split: if_splits)
qed

lemma fold_threshold_Min:
  "fold threshold_step es MaxUint64 =
     Min (insert MaxUint64 ((\<lambda>e. cached_Cardinality (snd e)) ` set es))"
proof -
  let ?t = "fold threshold_step es MaxUint64"
  let ?S = "insert MaxUint64 ((\<lambda>e. cached_Cardinality (snd e)) ` set es)"
  have "Min ?S = ?t"
  proof (rule Min_eqI)
    show "finite ?S" by simp
    show "\<And>y. y \<in> ?S \<Longrightarrow> ?t \<le> y"
      using fold_threshold_le_start [of es MaxUint64] fold_threshold_le_entry [of _ es MaxUint64]
      by auto
    show "?t \<in> ?S"
      using fold_threshold_attained [of es MaxUint64] by auto
  qed
  then show ?thesis by simp
qed

lemma Min_insert_MaxUint64:
  assumes "finite S" and "S \<noteq> {}"
  shows "Min (insert MaxUint64 S) = Min S"
proof -
  have "Min (insert MaxUint64 S) = min MaxUint64 (Min S)"
    using assms by (rule Min_insert)
  also have "\<dots> = Min S" using le_MaxUint64 [of "Min S"] by (simp add: min_def)
  finally show ?thesis .
qed

lemma min_threshold_Min:
  assumes k: "key_order cs ks"
  shows "min_threshold cs ks =
           (if cs = [] then 0 else Min ((\<lambda>e. cached_Cardinality (snd e)) ` set cs))"
proof (cases "cs = []")
  case True
  then show ?thesis by (simp add: min_threshold_def)
next
  case False
  have "fold threshold_step (go_range cs ks) MaxUint64 =
          Min (insert MaxUint64 ((\<lambda>e. cached_Cardinality (snd e)) ` set cs))"
    by (simp add: fold_threshold_Min go_range_set [OF k])
  also have "\<dots> = Min ((\<lambda>e. cached_Cardinality (snd e)) ` set cs)"
    using False by (intro Min_insert_MaxUint64) simp_all
  finally show ?thesis using False by (simp add: min_threshold_def Let_def)
qed


lemma seeds_differ_same: "\<not> seeds_differ xs xs"
  by (simp add: seeds_differ_def list_ex_iff)

section \<open>Merging with an empty tracker\<close>

lemma merge_validate_same_config:
  "config E = config A \<Longrightarrow> merge_validate A E = Ok"
  by (simp add: merge_validate_def seeds_differ_same)

lemma Merge_empty:
  assumes k: "key_order (counters A) ks2" and cap: "within_capacity A"
    and e: "counters E = []" and c: "config E = config A"
  shows "Merge F eq ko ks1 ks2 A E =
           (A\<lparr>threshold := (if counters A = [] then 0
                             else Min ((\<lambda>e. cached_Cardinality (snd e)) ` set (counters A)))\<rparr>, Ok)"
proof -
  from cap have t: "merge_truncate eq (MaxNumCounters (config A)) ks1 (counters A) = (counters A, Ok)"
    by (simp add: within_capacity_def merge_truncate_within)
  show ?thesis
    by (simp add: Merge_def merge_validate_same_config [OF c] e go_range_Nil t
        min_threshold_Min [OF k])
qed

text \<open>
  C4, as stated: merging a freshly created tracker of the same configuration into \<open>A\<close>
  leaves the threshold of \<open>A\<close> as it was.  It does not: after \<open>Insert("a", 0)\<close> the
  threshold is 0, and the merge sets it to 1, the cardinality of the one counter.
\<close>

theorem C4_merge_with_empty_moves_threshold:
  "Insert exactF (=) [] tracker1 ''a'' ''0'' = (tracker_a, Ok) \<and>
   threshold tracker_a = 0 \<and>
   Merge exactF (=) [] [0] [0] tracker_a (NewSamplingSpaceSavingSets (config tracker_a))
     = (tracker_a\<lparr>threshold := 1\<rparr>, Ok)"
proof -
  have k: "key_order (counters tracker_a) [0]"
    by (auto simp add: key_order_def tracker_a_def)
  have cap: "within_capacity tracker_a"
    by (simp add: within_capacity_def tracker_a_def cfg1_def)
  have "Merge exactF (=) [] [0] [0] tracker_a (NewSamplingSpaceSavingSets (config tracker_a))
     = (tracker_a\<lparr>threshold := 1\<rparr>, Ok)"
    using Merge_empty [OF k cap, of "NewSamplingSpaceSavingSets (config tracker_a)" exactF "(=)" "[]" "[0]"]
    by (simp add: NewSamplingSpaceSavingSets_def) (simp add: tracker_a_def cached_Cardinality_def)
  then show ?thesis by (simp add: Insert_a_0) (simp add: tracker_a_def)
qed

text \<open>
  C4, amended: for every tracker \<open>A\<close> within capacity and every freshly created or
  freshly cleared tracker \<open>E\<close> of the same configuration, \<open>A.Merge(E)\<close> succeeds and
  leaves the counters of \<open>A\<close> as they were; the threshold of \<open>A\<close> becomes the minimum
  cached cardinality among its counters, and 0 when it has none.
\<close>

theorem C4_merge_with_empty:
  assumes "key_order (counters A) ks2" and "within_capacity A"
    and "E = NewSamplingSpaceSavingSets (config A) \<or> (E = Clear E' \<and> config E' = config A)"
  shows "Merge F eq ko ks1 ks2 A E =
           (A\<lparr>threshold := (if counters A = [] then 0
                             else Min ((\<lambda>e. cached_Cardinality (snd e)) ` set (counters A)))\<rparr>, Ok)"
proof -
  from assms(3) have "counters E = [] \<and> config E = config A"
    by (auto simp add: NewSamplingSpaceSavingSets_def Clear_def)
  with Merge_empty [OF assms(1,2)] show ?thesis by simp
qed

theorem C4_merge_with_empty_witness:
  "key_order (counters tracker_a) [0] \<and> within_capacity tracker_a \<and>
   Merge exactF (=) [] [] [0] tracker_a (Clear tracker_aa) = (tracker_a\<lparr>threshold := 1\<rparr>, Ok)"
proof -
  have k: "key_order (counters tracker_a) [0]"
    by (auto simp add: key_order_def tracker_a_def)
  have cap: "within_capacity tracker_a"
    by (simp add: within_capacity_def tracker_a_def cfg1_def)
  have e: "Clear tracker_aa = NewSamplingSpaceSavingSets (config tracker_a) \<or>
           (Clear tracker_aa = Clear tracker_aa \<and> config tracker_aa = config tracker_a)"
    by (simp add: tracker_a_def tracker_aa_def)
  from C4_merge_with_empty [OF k cap e, of exactF "(=)" "[]" "[]"] k cap show ?thesis
    by (simp add: tracker_a_def cached_Cardinality_def)
qed

section \<open>The threshold along admission tests\<close>

lemma tracker_a_reachable: "reachable exactF (=) tracker_a"
proof -
  have "reachable exactF (=) (fst (Insert exactF (=) [] tracker1 ''a'' ''0''))"
    by (rule reach_Insert [OF tracker1_reachable])
       (simp add: key_order_def tracker1_def NewSamplingSpaceSavingSets_def)
  then show ?thesis by (simp add: Insert_a_0)
qed

lemma tracker_aa_reachable: "reachable exactF (=) tracker_aa"
proof -
  have "reachable exactF (=) (fst (Insert exactF (=) [0] tracker_a ''a'' ''2''))"
    by (rule reach_Insert [OF tracker_a_reachable]) (auto simp add: key_order_def tracker_a_def)
  then show ?thesis by (simp add: Insert_a_2)
qed

lemma tracker_b_reachable: "reachable exactF (=) tracker_b"
proof -
  have "reachable exactF (=) (fst (Insert exactF (=) [0] tracker_aa ''b'' ''5''))"
    by (rule reach_Insert [OF tracker_aa_reachable]) (auto simp add: key_order_def tracker_aa_def)
  then show ?thesis by (simp add: Insert_b_5)
qed

text \<open>
  C2, on the code: the tracker of capacity 1 after
  \<open>Insert("a", 0); Insert("a", 2); Insert("b", 5)\<close> is reachable, its threshold is 2, and
  its only counter, the one of \<open>b\<close>, has cardinality 1.
\<close>

theorem C2_threshold_above_minimum:
  "Insert exactF (=) [] tracker1 ''a'' ''0'' = (tracker_a, Ok) \<and>
   Insert exactF (=) [0] tracker_a ''a'' ''2'' = (tracker_aa, Ok) \<and>
   Insert exactF (=) [0] tracker_aa ''b'' ''5'' = (tracker_b, Ok) \<and>
   reachable exactF (=) tracker_b \<and>
   threshold tracker_b = 2 \<and>
   map fst (counters tracker_b) = [''b''] \<and>
   map_option cached_Cardinality (go_lookup (=) (counters tracker_b) ''b'') = Some 1 \<and>
   map_option (\<lambda>c. hll_Cardinality exactF (sketch c)) (go_lookup (=) (counters tracker_b) ''b'')
     = Some 1"
  by (simp add: Insert_a_0 Insert_a_2 Insert_b_5 tracker_b_reachable)
     (simp add: tracker_b_def cached_Cardinality_def hll_Cardinality_items)




section \<open>The cache of the wrapper\<close>

lemma cached_Insert_coherent:
  "cached_Insert F c it = (c', Ok) \<Longrightarrow> cardinality c' = hll_Cardinality F (sketch c')"
  by (auto simp add: cached_Insert_def split: prod.splits outcome.splits)

lemma cached_Merge_wrapped_coherent:
  "cached_Merge F c (IsCached oc) = (c', Ok) \<Longrightarrow> cardinality c' = hll_Cardinality F (sketch c')"
  by (auto simp add: cached_Merge_def split: prod.splits outcome.splits)

text \<open>
  C1, on the code: a wrapper around an empty sketch merged with the bare sketch that
  holds the item \<open>0\<close>.  The merge succeeds and the wrapped sketch now holds the item, with
  cardinality 1, while the cached cardinality is still 0.  The same merge with a wrapped
  argument refreshes the cache to 1.
\<close>

theorem C1_delegated_merge_keeps_stale_cache:
  "NewHyperLogLog exactF hll16 = Inr fresh16 \<and>
   hll_Insert exactF fresh16 ''0'' = (sketch_0, Ok) \<and>
   cached_Merge exactF (NewCachedSketch fresh16) (IsHLL sketch_0)
     = (\<lparr> sketch = sketch_0, cardinality = 0 \<rparr>, Ok) \<and>
   hll_Cardinality exactF sketch_0 = 1 \<and>
   cached_Merge exactF (NewCachedSketch fresh16) (IsCached \<lparr> sketch = sketch_0, cardinality = 1 \<rparr>)
     = (\<lparr> sketch = sketch_0, cardinality = 1 \<rparr>, Ok)"
  by (simp add: NewHyperLogLog_hll16 hll_Insert_items cached_Merge_bare cached_Merge_wrapped
      hll_Cardinality_items)
section \<open>The minimum label that the scan finds\<close>

text \<open>
  When the scan finds a minimum below the estimate, its label is the key of a stored
  entry, never the zero value of the label type; the lookup of that label finds a
  counter when the key is equal to itself, and the replacement goes through.
\<close>

lemma scan_fold_label:
  assumes "fold scan_step es acc = (ml, mc)"
    and "snd acc = MaxUint64 \<or> (\<exists>e \<in> set cs. fst acc = Some (fst e))"
    and "mc < MaxUint64" and "set es \<subseteq> set cs"
  shows "\<exists>e \<in> set cs. ml = Some (fst e)"
  using assms(1,2,4)
proof (induction es arbitrary: acc)
  case Nil
  with assms(3) show ?case by auto
next
  case (Cons k es)
  have "snd (scan_step k acc) = MaxUint64 \<or> (\<exists>e \<in> set cs. fst (scan_step k acc) = Some (fst e))"
    using Cons.prems(2,3) by (auto simp add: scan_step_def)
  moreover from Cons.prems(1) have "fold scan_step es (scan_step k acc) = (ml, mc)"
    by simp
  moreover from Cons.prems(3) have "set es \<subseteq> set cs" by simp
  ultimately show ?case by (intro Cons.IH)
qed

lemma scan_min_label:
  assumes sc: "scan_min cs ks = (ml, mc)" and lt: "mc < MaxUint64"
  shows "\<exists>e \<in> set cs. ml = Some (fst e)"
proof -
  from sc have f: "fold scan_step (go_range cs ks) (None, MaxUint64) = (ml, mc)"
    by (simp add: scan_min_def)
  have start: "snd (None :: 'a option, MaxUint64) = MaxUint64 \<or>
               (\<exists>e \<in> set cs. fst (None :: 'a option, MaxUint64) = Some (fst e))"
    by simp
  from scan_fold_label [OF f start lt go_range_subset] show ?thesis .
qed

lemma Insert_minimum_found:
  assumes "go_lookup eq (counters s) label = None"
    and "\<not> int (length (counters s)) < sint (MaxNumCounters (config s))"
    and "threshold s < cardinalityEstimate s label it"
    and "snd (scan_min (counters s) ks) < cardinalityEstimate s label it"
    and "\<forall>e \<in> set (counters s). eq (fst e) (fst e)"
  shows "\<exists>ml minCounter c r.
           go_lookup eq (counters s) ml = Some minCounter \<and>
           cached_Insert F (cached_Clear F minCounter) it = (c, r) \<and>
           Insert F eq ks s label it =
             (s\<lparr>threshold := snd (scan_min (counters s) ks),
                counters := go_assign eq (go_delete eq (counters s) ml) label c\<rparr>, r)"
proof -
  obtain ml mc where sc: "scan_min (counters s) ks = (ml, mc)" by fastforce
  with assms(4) have "mc < cardinalityEstimate s label it" by simp
  also have "\<dots> \<le> MaxUint64" by (rule le_MaxUint64)
  finally have "mc < MaxUint64" .
  from scan_min_label [OF sc this] obtain e
    where e: "e \<in> set (counters s)" "ml = Some (fst e)" by blast
  with assms(5) have "go_lookup eq (counters s) (fst e) \<noteq> None"
    by (auto simp add: go_lookup_None)
  then obtain minCounter where l: "go_lookup eq (counters s) (fst e) = Some minCounter" by blast
  obtain c r where ins: "cached_Insert F (cached_Clear F minCounter) it = (c, r)" by fastforce
  with assms sc e l show ?thesis by (auto simp add: Insert_def Let_def)
qed

section \<open>The capacity bound\<close>

lemma go_assign_present_keys:
  "go_lookup eq m k \<noteq> None \<Longrightarrow> map fst (go_assign eq m k v) = map fst m"
  by (induction m) auto

lemma keys_apart_assign:
  assumes rs: "reflexive_symmetric eq" and u: "keys_apart eq m"
  shows "keys_apart eq (go_assign eq m k v)"
proof (cases "go_lookup eq m k")
  case (Some c)
  then have "map fst (go_assign eq m k v) = map fst m" by (simp add: go_assign_present_keys)
  with u show ?thesis by (simp add: keys_apart_def)
next
  case None
  then have no: "\<forall>e \<in> set m. \<not> eq (fst e) k" by (simp add: go_lookup_None)
  with rs have no': "\<forall>e \<in> set m. \<not> eq k (fst e)" by (auto simp add: reflexive_symmetric_def)
  from rs have "eq k k" by (simp add: reflexive_symmetric_def)
  with no have "k \<notin> fst ` set m" by auto
  with u no no' show ?thesis
    by (auto simp add: go_assign_absent [OF None] keys_apart_def)
qed

lemma go_delete_keys_distinct: "distinct (map fst m) \<Longrightarrow> distinct (map fst (go_delete eq m k))"
proof (induction m)
  case Nil
  then show ?case by simp
next
  case (Cons e m)
  have "fst ` set (go_delete eq m k) \<subseteq> fst ` set m"
    using set_go_delete [of eq m k] by auto
  with Cons show ?case by auto
qed

lemma keys_apart_delete: "keys_apart eq m \<Longrightarrow> keys_apart eq (go_delete eq m k)"
  using set_go_delete [of eq m k]
  by (auto simp add: keys_apart_def go_delete_keys_distinct)

lemma go_delete_keeps: "e \<in> set m \<Longrightarrow> \<not> eq (fst e) k \<Longrightarrow> e \<in> set (go_delete eq m k)"
  by (induction m) auto

lemma fold_delete_length:
  assumes rs: "reflexive_symmetric eq"
  shows "keys_apart eq cs \<Longrightarrow> distinct ls \<Longrightarrow> set ls \<subseteq> fst ` set cs
           \<Longrightarrow> length (fold (\<lambda>l m. go_delete eq m l) ls cs) = length cs - length ls \<and>
               keys_apart eq (fold (\<lambda>l m. go_delete eq m l) ls cs)"
proof (induction ls arbitrary: cs)
  case Nil
  then show ?case by simp
next
  case (Cons l ls)
  from Cons.prems(3) obtain e where e: "e \<in> set cs" "fst e = l" by auto
  from rs have "eq l l" by (simp add: reflexive_symmetric_def)
  with e have found: "go_lookup eq cs l \<noteq> None" by (auto simp add: go_lookup_None)
  then have len: "length (go_delete eq cs l) = length cs - 1"
    using length_go_delete [of eq cs l] by auto
  have u': "keys_apart eq (go_delete eq cs l)" using Cons.prems(1) by (rule keys_apart_delete)
  have sub: "set ls \<subseteq> fst ` set (go_delete eq cs l)"
  proof
    fix l' assume l': "l' \<in> set ls"
    with Cons.prems(2) have ne: "l' \<noteq> l" by auto
    from l' Cons.prems(3) obtain e' where e': "e' \<in> set cs" "fst e' = l'" by auto
    from Cons.prems(1) e e' ne have "\<not> eq (fst e') l"
      by (auto simp add: keys_apart_def)
    from go_delete_keeps [of e' cs eq l, OF e'(1) this] e'(2) show "l' \<in> fst ` set (go_delete eq cs l)"
      by force
  qed
  from Cons.prems(2) have d: "distinct ls" by simp
  from Cons.IH [OF u' d sub] len show ?case by simp
qed

lemma go_range_keys:
  assumes k: "key_order cs ks"
  shows "distinct (map fst cs) \<Longrightarrow> distinct (map fst (go_range cs ks))"
proof -
  assume d: "distinct (map fst cs)"
  from k have f: "filter (\<lambda>i. i < length cs) ks = ks"
    by (auto simp add: key_order_def filter_id_conv)
  have "\<forall>i \<in> set ks. i < length cs" using k by (simp add: key_order_def)
  then have "map fst (go_range cs ks) = map (\<lambda>i. map fst cs ! i) ks"
    by (simp add: go_range_def f)
  moreover have "distinct (map (\<lambda>i. map fst cs ! i) ks)"
  proof (rule iffD2 [OF distinct_map], intro conjI)
    show "distinct ks" using k by (simp add: key_order_def)
    show "inj_on (\<lambda>i. map fst cs ! i) (set ks)"
    proof (rule inj_onI)
      fix i j assume "i \<in> set ks" "j \<in> set ks" and e: "map fst cs ! i = map fst cs ! j"
      with k have "i < length (map fst cs)" "j < length (map fst cs)"
        by (simp_all add: key_order_def)
      with d e show "i = j" by (simp only: nth_eq_iff_index_eq)
    qed
  qed
  ultimately show ?thesis by simp
qed

lemma sort_desc_labels_distinct:
  "distinct (map Label es) \<Longrightarrow> distinct (map Label (sort_desc es))"
  by (simp add: distinct_map sort_desc_def)

lemma fold_delete_entry:
  "fold (delete_entry eq) es cs = fold (\<lambda>l m. go_delete eq m l) (map Label es) cs"
  by (induction es arbitrary: cs) (simp_all add: delete_entry_def)

lemma merge_truncate_capacity:
  assumes rs: "reflexive_symmetric eq" and u: "keys_apart eq cs" and k: "key_order cs ks"
    and pos: "0 \<le> sint cap"
  shows "int (length (fst (merge_truncate eq cap ks cs))) \<le> sint cap \<and>
         keys_apart eq (fst (merge_truncate eq cap ks cs))"
proof (cases "sint cap < int (length cs)")
  case False
  with u show ?thesis by (simp add: merge_truncate_def)
next
  case True
  let ?es = "sort_desc (entries_of cs ks)"
  let ?n = "nat (sint cap)"
  let ?ls = "map Label (drop ?n ?es)"
  have len: "length ?es = length cs"
    by (simp add: sort_desc_length entries_of_length [OF k])
  have lab: "map Label (entries_of cs ks) = map fst (go_range cs ks)"
    by (simp add: entries_of_def comp_def)
  from u have "distinct (map fst (go_range cs ks))"
    by (intro go_range_keys [OF k]) (simp add: keys_apart_def)
  with lab have "distinct (map Label ?es)" by (simp add: sort_desc_labels_distinct)
  then have d: "distinct ?ls" by (simp add: drop_map [symmetric] distinct_drop)
  have "set ?ls \<subseteq> Label ` set ?es" by (auto dest: in_set_dropD)
  also have "\<dots> = set (map Label (entries_of cs ks))" by (simp add: sort_desc_set)
  also have "\<dots> = fst ` set cs" by (simp add: lab go_range_set [OF k])
  finally have sub: "set ?ls \<subseteq> fst ` set cs" .
  have f: "fold (delete_entry eq) (drop ?n ?es) cs = fold (\<lambda>l m. go_delete eq m l) ?ls cs"
    by (rule fold_delete_entry)
  from True pos len have eq: "merge_truncate eq cap ks cs =
        (fold (delete_entry eq) (drop ?n ?es) cs, Ok)"
    by (simp add: merge_truncate_def Let_def)
  from fold_delete_length [OF rs u d sub] len True pos show ?thesis
    unfolding eq f by simp
qed

lemma Insert_keys_apart:
  assumes rs: "reflexive_symmetric eq" and u: "keys_apart eq (counters s)"
  shows "keys_apart eq (counters (fst (Insert F eq ks s label it)))"
proof -
  note a = keys_apart_assign [OF rs]
  have d: "\<And>ml. keys_apart eq (go_delete eq (counters s) ml)"
    using u by (rule keys_apart_delete)
  show ?thesis
    using u a [OF u] a [OF d]
    by (simp add: Insert_def Let_def split: option.splits prod.splits sum.splits)
qed

lemma merge_counters_keys_apart:
  assumes rs: "reflexive_symmetric eq"
  shows "keys_apart eq cs \<Longrightarrow> keys_apart eq (fst (merge_counters F eq hc es cs))"
proof (induction es arbitrary: cs)
  case Nil
  then show ?case by simp
next
  case (Cons e rest)
  note a = keys_apart_assign [OF rs Cons.prems]
  from Cons.IH [OF a] a Cons.prems show ?case
    by (simp split: option.splits prod.splits sum.splits outcome.splits)
qed

lemma fold_delete_keys_apart:
  "keys_apart eq cs \<Longrightarrow> keys_apart eq (fold (delete_entry eq) es cs)"
  by (induction es arbitrary: cs) (simp_all add: delete_entry_def keys_apart_delete)

lemma merge_truncate_keys_apart:
  "keys_apart eq cs \<Longrightarrow> keys_apart eq (fst (merge_truncate eq cap ks cs))"
  by (simp add: merge_truncate_def Let_def fold_delete_keys_apart)

lemma Merge_counters_result:
  assumes wf: "tracker_wf s" and wfo: "tracker_wf other"
  shows "counters (fst (Merge F eq ko ks1 ks2 s other)) = counters s \<or>
         counters (fst (Merge F eq ko ks1 ks2 s other)) =
           fst (merge_truncate eq (MaxNumCounters (config s)) ks1
                  (fst (merge_counters F eq (CardinalitySketchConfig (config s))
                          (go_range (counters other) ko) (counters s))))"
proof -
  from merge_validate_cases [of s other] show ?thesis
  proof
    assume "\<exists>e. merge_validate s other = Err e"
    then obtain e where "merge_validate s other = Err e" ..
    from Merge_invalid [OF this, of F eq ko ks1 ks2] show ?thesis by simp
  next
    assume v: "merge_validate s other = Ok"
    obtain cs2 r where t: "merge_truncate eq (MaxNumCounters (config s)) ks1
             (fst (merge_counters F eq (CardinalitySketchConfig (config s))
                     (go_range (counters other) ko) (counters s))) = (cs2, r)" by fastforce
    have "counters (fst (Merge F eq ko ks1 ks2 s other)) = cs2"
      using Merge_valid [OF wf wfo v, of F eq ko ks1 ks2] t by (cases r) simp_all
    with t show ?thesis by simp
  qed
qed

lemma Merge_capacity:
  assumes rs: "reflexive_symmetric eq"
    and wf: "tracker_wf s" and wfo: "tracker_wf other"
    and k1: "key_order (fst (merge_counters F eq (CardinalitySketchConfig (config s))
                                (go_range (counters other) ko) (counters s))) ks1"
    and u: "keys_apart eq (counters s)"
    and cap: "0 \<le> sint (MaxNumCounters (config s)) \<longrightarrow> within_capacity s"
  shows "keys_apart eq (counters (fst (Merge F eq ko ks1 ks2 s other))) \<and>
         (0 \<le> sint (MaxNumCounters (config s))
            \<longrightarrow> within_capacity (fst (Merge F eq ko ks1 ks2 s other)))"
proof -
  let ?cs1 = "fst (merge_counters F eq (CardinalitySketchConfig (config s))
                     (go_range (counters other) ko) (counters s))"
  let ?cs2 = "fst (merge_truncate eq (MaxNumCounters (config s)) ks1 ?cs1)"
  have u1: "keys_apart eq ?cs1" using u by (rule merge_counters_keys_apart [OF rs])
  then have u2: "keys_apart eq ?cs2" by (rule merge_truncate_keys_apart)
  have c2: "0 \<le> sint (MaxNumCounters (config s))
              \<longrightarrow> int (length ?cs2) \<le> sint (MaxNumCounters (config s))"
    using merge_truncate_capacity [OF rs u1 k1] by simp
  from Merge_counters_result [OF wf wfo, of F eq ko ks1 ks2] show ?thesis
  proof
    assume "counters (fst (Merge F eq ko ks1 ks2 s other)) = counters s"
    with u cap show ?thesis by (simp add: within_capacity_def Merge_config)
  next
    assume "counters (fst (Merge F eq ko ks1 ks2 s other)) = ?cs2"
    with u2 c2 show ?thesis by (simp add: within_capacity_def Merge_config)
  qed
qed

lemma reachable_capacity:
  assumes rs: "reflexive_symmetric eq"
  shows "reachable F eq s \<Longrightarrow>
           keys_apart eq (counters s) \<and>
           (0 \<le> sint (MaxNumCounters (config s)) \<longrightarrow> within_capacity s)"
proof (induction rule: reachable.induct)
  case (reach_New m hseeds rnd1 hc n seeds rnd2 cfg)
  then show ?case
    by (simp add: within_capacity_def keys_apart_def NewSamplingSpaceSavingSets_def)
next
  case (reach_Insert s ks label it)
  then show ?case by (simp add: Insert_capacity Insert_config Insert_keys_apart [OF rs])
next
  case (reach_Merge s other ko ks1 ks2)
  from reach_Merge.hyps have wf: "tracker_wf s" "tracker_wf other"
    by (simp_all add: reachable_wf)
  from reach_Merge.hyps have k1: "key_order (fst (merge_counters F eq (CardinalitySketchConfig (config s))
                                (go_range (counters other) ko) (counters s))) ks1"
    by (simp add: merge_orders_def Let_def)
  from reach_Merge.IH have u: "keys_apart eq (counters s)"
    and cap: "0 \<le> sint (MaxNumCounters (config s)) \<longrightarrow> within_capacity s" by simp_all
  from Merge_capacity [OF rs wf k1 u cap] show ?case by (simp add: Merge_config)
next
  case (reach_Clear s)
  then show ?case by (simp add: within_capacity_def keys_apart_def Clear_def)
qed

text \<open>
  With labels whose equality is reflexive and symmetric, a tracker built from a
  validated configuration of positive capacity holds at most \<open>MaxNumCounters\<close> counters
  after any sequence of inserts, merges (whatever their outcome) and clears.
\<close>

lemma capacity_bound_reflexive:
  assumes "reflexive_symmetric eq" and "reachable F eq s"
    and "0 < sint (MaxNumCounters (config s))"
  shows "int (length (counters s)) \<le> sint (MaxNumCounters (config s))"
  using reachable_capacity [OF assms(1,2)] assms(3) by (simp add: within_capacity_def)

lemma nan_tracker_1_reachable: "reachable exactF float_eq nan_tracker_1"
proof -
  have "reachable exactF float_eq (fst (Insert exactF float_eq [] nan_tracker NaN ''0''))"
    by (rule reach_Insert [OF nan_tracker_reachable])
       (simp add: key_order_def nan_tracker_def NewSamplingSpaceSavingSets_def)
  then show ?thesis by (simp add: Insert_NaN_0)
qed

lemma nan_tracker_2_reachable: "reachable exactF float_eq nan_tracker_2"
proof -
  have cs1: "merge_counters exactF float_eq (CardinalitySketchConfig (config nan_tracker_1))
               (go_range (counters nan_tracker_1) [0]) (counters nan_tracker_1)
             = (counters nan_tracker_2, Ok)"
    by (simp add: nan_tracker_1_def nan_tracker_2_def cfg1_def go_range_def
        NewHyperLogLog_hll16 cached_Merge_wrapped)
  have cs2: "merge_truncate float_eq (MaxNumCounters (config nan_tracker_1)) [0, 1]
               (counters nan_tracker_2) = (counters nan_tracker_2, Ok)"
    by (simp add: nan_tracker_1_def nan_tracker_2_def cfg1_def go_range_def merge_truncate_def
        entries_of_def sort_desc_def cached_Cardinality_def delete_entry_def Let_def)
  have o: "merge_orders exactF float_eq [0] [0, 1] [0, 1] nan_tracker_1 nan_tracker_1"
    unfolding merge_orders_def Let_def cs1 fst_conv cs2
    by (auto simp add: key_order_def nan_tracker_1_def nan_tracker_2_def)
  have "reachable exactF float_eq
          (fst (Merge exactF float_eq [0] [0, 1] [0, 1] nan_tracker_1 nan_tracker_1))"
    by (rule reach_Merge [OF nan_tracker_1_reachable nan_tracker_1_reachable o])
  then show ?thesis by (simp only: Merge_NaN fst_conv)
qed

text \<open>
  C8, on the code: the label type of a tracker is any comparable type, \<open>float64\<close> among
  them.  Two trackers of capacity 1 that each took \<open>Insert(NaN, 0)\<close> hold one entry each;
  merging the second into the first finds no counter under \<open>NaN\<close>, adds a second entry,
  and the truncation to the capacity deletes the key \<open>NaN\<close>, which removes nothing.  The
  merge returns without error and the tracker holds 2 entries with a capacity of 1.
\<close>

theorem C8_capacity_exceeded_by_NaN_labels:
  "NewHLLConfig exactF 16 (Some [8, 9]) zero_rnd = Inr hll16 \<and>
   NewConfig 1 hll16 (Some []) zero_rnd = Inr cfg1 \<and>
   \<not> float_eq NaN NaN \<and>
   Insert exactF float_eq [] (NewSamplingSpaceSavingSets cfg1) NaN ''0'' = (nan_tracker_1, Ok) \<and>
   Merge exactF float_eq [0] [0, 1] [0, 1] nan_tracker_1 nan_tracker_1 = (nan_tracker_2, Ok) \<and>
   reachable exactF float_eq nan_tracker_2 \<and>
   sint (MaxNumCounters (config nan_tracker_2)) = 1 \<and>
   length (counters nan_tracker_2) = 2"
proof -
  have "Insert exactF float_eq [] (NewSamplingSpaceSavingSets cfg1) NaN ''0'' = (nan_tracker_1, Ok)"
    using Insert_NaN_0 by (simp only: nan_tracker_def)
  moreover have "\<not> float_eq NaN NaN" by simp
  moreover have "sint (MaxNumCounters (config nan_tracker_2)) = 1"
    by (simp add: nan_tracker_2_def cfg1_def)
  moreover have "length (counters nan_tracker_2) = 2"
    by (simp add: nan_tracker_2_def)
  ultimately show ?thesis
    using hll16_built cfg1_built Merge_NaN nan_tracker_2_reachable by blast
qed

section \<open>The value of \<open>Cardinality\<close>\<close>











lemma zero_count_pos: "i < length rs \<Longrightarrow> rs ! i = 0 \<Longrightarrow> 0 < zero_count rs"
  by (auto simp add: zero_count_def filter_empty_conv in_set_conv_nth)

























end
